theory Spec2Isabelle
  imports Main "HOL-Library.Sublist"
begin

section \<open>The environment of \<^verbatim>\<open>tini.c\<close>\<close>

text \<open>
  \<^verbatim>\<open>src/tini.c\<close> is a single-threaded C program whose whole behaviour is a sequence of
  calls into the C library and the kernel. The embedding keeps every function of the file
  with its name, its branches and their order, and makes the environment explicit:
  \<^item> the answers of the environment (return values, \<^verbatim>\<open>errno\<close>, the reported signal, the
    collected pid and status) are fields of a record \<open>world\<close>; a call that is made once
    reads a field, a call that is made repeatedly (\<^verbatim>\<open>getopt\<close>, \<^verbatim>\<open>sigtimedwait\<close>,
    \<^verbatim>\<open>kill\<close>, \<^verbatim>\<open>waitpid\<close>) consumes the head of a list of answers;
  \<^item> what the program does to the outside (each call it makes, each line it prints) is
    appended to the field \<open>trace\<close>, in the order of execution;
  \<^item> the global variable \<^verbatim>\<open>verbosity\<close> and the signal mask of the process are fields
    of the same record;
  \<^item> a C function returning \<^verbatim>\<open>int\<close> and writing through pointers returns
    \<open>Inl r\<close> when it returns the non-zero value \<open>r\<close> (its out-parameters are then not
    read by the caller) and \<open>Inr outs\<close> when it returns \<^verbatim>\<open>0\<close>;
  \<^item> \<^verbatim>\<open>sigtimedwait\<close>, \<^verbatim>\<open>kill\<close> and \<^verbatim>\<open>waitpid\<close> on an exhausted list of answers
    give \<open>None\<close>: the finite script of the environment says nothing about a further
    call, so the run is not determined beyond that point.
\<close>

subsection \<open>Constants of \<^verbatim>\<open>signal.h\<close> and \<^verbatim>\<open>errno.h\<close> (Linux, x86 and ARM numbering)\<close>

definition SIGILL :: int where "SIGILL = 4"
definition SIGTRAP :: int where "SIGTRAP = 5"
definition SIGABRT :: int where "SIGABRT = 6"
definition SIGBUS :: int where "SIGBUS = 7"
definition SIGFPE :: int where "SIGFPE = 8"
definition SIGSEGV :: int where "SIGSEGV = 11"
definition SIGCHLD :: int where "SIGCHLD = 17"
definition SIGSYS :: int where "SIGSYS = 31"

definition ESRCH :: int where "ESRCH = 3"
definition EINTR :: int where "EINTR = 4"
definition ECHILD :: int where "ECHILD = 10"
definition EAGAIN :: int where "EAGAIN = 11"

lemmas signal_defs =
  SIGILL_def SIGTRAP_def SIGABRT_def SIGBUS_def SIGFPE_def SIGSEGV_def SIGCHLD_def SIGSYS_def

lemmas errno_defs = ESRCH_def EINTR_def ECHILD_def EAGAIN_def

text \<open>The characters \<^verbatim>\<open>'h'\<close>, \<^verbatim>\<open>'v'\<close> and \<^verbatim>\<open>'?'\<close> as the \<^verbatim>\<open>int\<close> that \<^verbatim>\<open>getopt\<close> returns.\<close>

definition char_h :: int where "char_h = 104"
definition char_v :: int where "char_v = 118"
definition char_qm :: int where "char_qm = 63"

lemmas char_defs = char_h_def char_v_def char_qm_def

subsection \<open>The status word of \<^verbatim>\<open>waitpid\<close>\<close>

text \<open>
  The program reads the status only through the macros \<^verbatim>\<open>WIFEXITED\<close>,
  \<^verbatim>\<open>WEXITSTATUS\<close>, \<^verbatim>\<open>WIFSIGNALED\<close> and \<^verbatim>\<open>WTERMSIG\<close> of \<^verbatim>\<open>sys/wait.h\<close>. The
  status is therefore the report they decode: a normal exit with a code, a death by a
  signal, a stop or a continuation. Codes and signal numbers are naturals, as the macros
  only ever yield values from \<open>0\<close> to \<open>255\<close> and from \<open>0\<close> to \<open>127\<close>.
\<close>

datatype wstatus = Exited nat | Signaled nat | Stopped nat | Continued

fun WIFEXITED :: "wstatus \<Rightarrow> bool" where
  "WIFEXITED (Exited k) = True"
| "WIFEXITED _ = False"

fun WEXITSTATUS :: "wstatus \<Rightarrow> int" where
  "WEXITSTATUS (Exited k) = int k"
| "WEXITSTATUS _ = 0"

fun WIFSIGNALED :: "wstatus \<Rightarrow> bool" where
  "WIFSIGNALED (Signaled n) = True"
| "WIFSIGNALED _ = False"

fun WTERMSIG :: "wstatus \<Rightarrow> int" where
  "WTERMSIG (Signaled n) = int n"
| "WTERMSIG (Exited k) = 0"
| "WTERMSIG _ = 127"

subsection \<open>Answers of the environment\<close>

text \<open>\<^verbatim>\<open>sigtimedwait\<close>: its return value, \<^verbatim>\<open>sig.si_signo\<close> and \<^verbatim>\<open>errno\<close>.\<close>

datatype sigtimedwait_ans = Sigtimedwait_ans (stw_ret: int) (stw_signo: int) (stw_errno: int)

text \<open>\<^verbatim>\<open>kill\<close>: its return value and \<^verbatim>\<open>errno\<close>.\<close>

datatype kill_ans = Kill_ans (kill_ret: int) (kill_errno: int)

text \<open>\<^verbatim>\<open>waitpid\<close>: its return value, the status it stores and \<^verbatim>\<open>errno\<close>.\<close>

datatype waitpid_ans = Waitpid_ans (wp_ret: int) (wp_status: wstatus) (wp_errno: int)

subsection \<open>What the program does to the outside\<close>

datatype out_stream = Stdout | Stderr

datatype level = FATAL | WARN | INFO | DEBUG | TRACE

datatype event =
    Usage out_stream
  | Print level string
  | Sys_sigfillset
  | Sys_sigdelset int
  | Sys_sigprocmask "int set"
  | Sys_getopt
  | Sys_calloc
  | Sys_fork
  | Sys_execvp "string list"
  | Sys_sigtimedwait "int set"
  | Sys_kill int int
  | Sys_waitpid

record world =
  verbosity :: int
  sigmask :: "int set"
  trace :: "event list"
  full_sigset :: "int set"
  sigfillset_ret :: int
  sigdelset_ret :: "int \<Rightarrow> int"
  sigprocmask_ret :: int
  getopt_tape :: "int list"
  optind :: nat
  calloc_ok :: bool
  fork_ret :: int
  child_sigprocmask_ret :: int
  execvp_ok :: bool
  sigtimedwait_tape :: "sigtimedwait_ans list"
  kill_tape :: "kill_ans list"
  waitpid_tape :: "waitpid_ans list"

definition emit :: "event \<Rightarrow> world \<Rightarrow> world" where
  "emit e w = w\<lparr>trace := trace w @ [e]\<rparr>"

text \<open>
  The macros \<^verbatim>\<open>PRINT_FATAL\<close> to \<^verbatim>\<open>PRINT_TRACE\<close>: the fatal line is always printed, the
  others are guarded by \<^verbatim>\<open>verbosity\<close>. The message kept is the format string, without
  its quote characters.
\<close>

definition PRINT_FATAL :: "string \<Rightarrow> world \<Rightarrow> world" where
  "PRINT_FATAL msg w = emit (Print FATAL msg) w"

definition PRINT_WARNING :: "string \<Rightarrow> world \<Rightarrow> world" where
  "PRINT_WARNING msg w = (if verbosity w > 0 then emit (Print WARN msg) w else w)"

definition PRINT_INFO :: "string \<Rightarrow> world \<Rightarrow> world" where
  "PRINT_INFO msg w = (if verbosity w > 1 then emit (Print INFO msg) w else w)"

definition PRINT_DEBUG :: "string \<Rightarrow> world \<Rightarrow> world" where
  "PRINT_DEBUG msg w = (if verbosity w > 2 then emit (Print DEBUG msg) w else w)"

definition PRINT_TRACE :: "string \<Rightarrow> world \<Rightarrow> world" where
  "PRINT_TRACE msg w = (if verbosity w > 3 then emit (Print TRACE msg) w else w)"

definition print_usage :: "out_stream \<Rightarrow> world \<Rightarrow> world" where
  "print_usage file w = emit (Usage file) w"

subsection \<open>The repeated calls\<close>

text \<open>
  \<^verbatim>\<open>getopt\<close> is library code: its successive return values are scripted, and once
  they are used up it returns \<^verbatim>\<open>-1\<close>, the end of the options. The other three calls
  have no answer left when their script is used up.
\<close>

definition getopt :: "world \<Rightarrow> int \<times> world" where
  "getopt w =
     (case getopt_tape w of
        [] \<Rightarrow> (- 1, emit Sys_getopt w)
      | c # cs \<Rightarrow> (c, emit Sys_getopt (w\<lparr>getopt_tape := cs\<rparr>)))"

definition sigtimedwait :: "int set \<Rightarrow> world \<Rightarrow> (sigtimedwait_ans \<times> world) option" where
  "sigtimedwait S w =
     (case sigtimedwait_tape w of
        [] \<Rightarrow> None
      | a # as \<Rightarrow> Some (a, emit (Sys_sigtimedwait S) (w\<lparr>sigtimedwait_tape := as\<rparr>)))"

definition kill :: "int \<Rightarrow> int \<Rightarrow> world \<Rightarrow> (kill_ans \<times> world) option" where
  "kill pid sig w =
     (case kill_tape w of
        [] \<Rightarrow> None
      | k # ks \<Rightarrow> Some (k, emit (Sys_kill pid sig) (w\<lparr>kill_tape := ks\<rparr>)))"

definition waitpid :: "world \<Rightarrow> (waitpid_ans \<times> world) option" where
  "waitpid w =
     (case waitpid_tape w of
        [] \<Rightarrow> None
      | a # as \<Rightarrow> Some (a, emit Sys_waitpid (w\<lparr>waitpid_tape := as\<rparr>)))"

section \<open>The functions of \<^verbatim>\<open>tini.c\<close>\<close>

subsection \<open>\<^verbatim>\<open>spawn\<close>\<close>

text \<open>
  The result is \<open>None\<close> when \<^verbatim>\<open>execvp\<close> succeeds: the process followed is then the forked
  child, its image is replaced and \<^verbatim>\<open>spawn\<close> never returns. \<open>Some (Inr pid)\<close> is the
  return of \<^verbatim>\<open>0\<close> in the parent, with \<^verbatim>\<open>*child_pid_ptr = pid\<close>.
\<close>

definition spawn :: "int set \<Rightarrow> string list \<Rightarrow> world \<Rightarrow> (int + int) option \<times> world" where
  "spawn child_sigset argv w =
     (let w1 = emit Sys_fork w; pid = fork_ret w1 in
      if pid < 0 then (Some (Inl 1), PRINT_FATAL ''Fork failed: %s'' w1)
      else if pid = 0 then
        (let w2 = emit (Sys_sigprocmask child_sigset) w1 in
         if child_sigprocmask_ret w2 \<noteq> 0
         then (Some (Inl 1), PRINT_FATAL ''Setting child signal mask failed: %s'' w2)
         else
           (let w3 = emit (Sys_execvp argv) (w2\<lparr>sigmask := child_sigset\<rparr>) in
            if execvp_ok w3 then (None, w3)
            else (Some (Inl 1), PRINT_FATAL ''Executing child process %s failed: %s'' w3)))
      else (Some (Inr pid), PRINT_INFO ''Spawned child process %s with pid %i'' w1))"

subsection \<open>\<^verbatim>\<open>parse_args\<close>\<close>

text \<open>
  The \<^verbatim>\<open>while\<close> loop over \<^verbatim>\<open>getopt\<close>. The first component is \<open>Some r\<close> when a
  \<^verbatim>\<open>case\<close> of the \<^verbatim>\<open>switch\<close> returns \<open>r\<close> from \<^verbatim>\<open>parse_args\<close>, and \<open>None\<close> when
  \<^verbatim>\<open>getopt\<close> has returned \<^verbatim>\<open>-1\<close>; the second is \<^verbatim>\<open>*parse_fail_exitcode_ptr\<close>.
  \<^verbatim>\<open>print_usage\<close> is given \<^verbatim>\<open>name = argv[0]\<close>; \<^verbatim>\<open>getopt\<close> reports \<^verbatim>\<open>'h'\<close> or
  \<^verbatim>\<open>'?'\<close> only for an option it has found in \<^verbatim>\<open>argv\<close>, so in these two cases the name
  is a string, and the event \<open>Usage\<close> does not record it.
\<close>

function getopt_loop :: "int \<Rightarrow> world \<Rightarrow> int option \<times> int \<times> world" where
  "getopt_loop parse_fail_exitcode w =
     (case getopt w of (c, w1) \<Rightarrow>
        if c = - 1 then (None, parse_fail_exitcode, w1)
        else if c = char_h then (Some 1, 0, print_usage Stdout w1)
        else if c = char_v
          then getopt_loop parse_fail_exitcode (w1\<lparr>verbosity := verbosity w1 + 1\<rparr>)
        else if c = char_qm then (Some 1, parse_fail_exitcode, print_usage Stderr w1)
        else (Some 1, parse_fail_exitcode, w1))"
  by pat_completeness auto
termination
  by (relation "measure (\<lambda>(e, w). length (getopt_tape w))")
     (auto simp: getopt_def emit_def split: list.splits)

declare getopt_loop.simps [simp del]

text \<open>
  \<^verbatim>\<open>argv\<close> is the vector as \<^verbatim>\<open>getopt\<close> leaves it, \<^verbatim>\<open>argc\<close> its length, and
  \<open>optind w\<close> the value of \<^verbatim>\<open>optind\<close> once \<^verbatim>\<open>getopt\<close> has returned \<^verbatim>\<open>-1\<close>. The
  \<^verbatim>\<open>for\<close> loop copies \<^verbatim>\<open>argv[optind]\<close> to \<^verbatim>\<open>argv[argc - 1]\<close>, and \<^verbatim>\<open>i\<close> ends as the
  number of copied elements.

  The first component of the result is \<open>None\<close> where the C code has no defined behaviour:
  \<^item> with \<^verbatim>\<open>optind > argc\<close> the count \<^verbatim>\<open>argc - optind + 1\<close> given to \<^verbatim>\<open>calloc\<close> is
    not positive, and the store \<^verbatim>\<open>child_args[i] = NULL\<close> after the loop, with
    \<^verbatim>\<open>i = 0\<close>, is outside a block of that many elements. This is the case of an empty
    \<^verbatim>\<open>argv\<close> (\<^verbatim>\<open>argc = 0\<close>), where \<^verbatim>\<open>getopt\<close> leaves \<^verbatim>\<open>optind\<close> at \<open>1\<close>;
  \<^item> with an empty \<^verbatim>\<open>argv\<close>, \<^verbatim>\<open>name = argv[0]\<close> is the null pointer and
    \<^verbatim>\<open>print_usage\<close> passes it to \<^verbatim>\<open>basename\<close>.
  A failed \<^verbatim>\<open>calloc\<close> returns before either.
\<close>

definition parse_args ::
  "string list \<Rightarrow> int \<Rightarrow> world \<Rightarrow> (int + string list) option \<times> int \<times> world" where
  "parse_args argv parse_fail_exitcode w =
     (case getopt_loop parse_fail_exitcode w of
        (Some r, pfe, w1) \<Rightarrow> (Some (Inl r), pfe, w1)
      | (None, pfe, w1) \<Rightarrow>
          (let w2 = emit Sys_calloc w1 in
           if \<not> calloc_ok w2
           then (Some (Inl 1), pfe,
             PRINT_FATAL ''Failed to allocate memory for child args: %s'' w2)
           else if length argv < optind w2 then (None, pfe, w2)
           else
             (let child_args = drop (optind w2) argv; i = length child_args in
              if i = 0 then
                (if argv = [] then (None, pfe, w2)
                 else (Some (Inl 1), pfe, print_usage Stderr w2))
              else (Some (Inr child_args), pfe, w2))))"

subsection \<open>\<^verbatim>\<open>prepare_sigmask\<close>\<close>

definition ignore_signals :: "int list" where
  "ignore_signals = [SIGFPE, SIGILL, SIGSEGV, SIGBUS, SIGABRT, SIGTRAP, SIGSYS]"

text \<open>The \<^verbatim>\<open>for\<close> loop over \<^verbatim>\<open>ignore_signals\<close>, from the element at hand.\<close>

fun sigdelset_loop :: "int list \<Rightarrow> int set \<Rightarrow> world \<Rightarrow> (int + int set) \<times> world" where
  "sigdelset_loop [] parent_sigset w = (Inr parent_sigset, w)"
| "sigdelset_loop (s # ss) parent_sigset w =
     (let w1 = emit (Sys_sigdelset s) w in
      if sigdelset_ret w1 s \<noteq> 0 then (Inl 1, PRINT_FATAL ''sigdelset failed: %i'' w1)
      else sigdelset_loop ss (parent_sigset - {s}) w1)"

text \<open>
  \<^verbatim>\<open>sigprocmask(SIG_SETMASK, parent, child)\<close> stores the mask in effect into \<^verbatim>\<open>child\<close>
  and makes \<^verbatim>\<open>parent\<close> the mask of the process. The field \<open>sigmask\<close> is the mask as the
  program requests it: that the kernel leaves \<^verbatim>\<open>SIGKILL\<close> and \<^verbatim>\<open>SIGSTOP\<close> unblocked
  whatever is requested is outside the program and not modelled. The result
  \<open>Inr (parent, child)\<close> holds the two sets written through the pointers.
\<close>

definition prepare_sigmask :: "world \<Rightarrow> (int + int set \<times> int set) \<times> world" where
  "prepare_sigmask w =
     (let w1 = emit Sys_sigfillset w in
      if sigfillset_ret w1 \<noteq> 0 then (Inl 1, PRINT_FATAL ''sigfillset failed: %s'' w1)
      else
        (case sigdelset_loop ignore_signals (full_sigset w1) w1 of
           (Inl r, w2) \<Rightarrow> (Inl r, w2)
         | (Inr parent_sigset, w2) \<Rightarrow>
             (let w3 = emit (Sys_sigprocmask parent_sigset) w2 in
              if sigprocmask_ret w3 \<noteq> 0 then (Inl 1, PRINT_FATAL ''sigprocmask failed: %s'' w3)
              else (Inr (parent_sigset, sigmask w3), w3\<lparr>sigmask := parent_sigset\<rparr>))))"

subsection \<open>\<^verbatim>\<open>wait_and_forward_signal\<close>\<close>

definition wait_and_forward_signal :: "int set \<Rightarrow> int \<Rightarrow> world \<Rightarrow> (int \<times> world) option" where
  "wait_and_forward_signal parent_sigset child_pid w =
     (case sigtimedwait parent_sigset w of
        None \<Rightarrow> None
      | Some (sig, w1) \<Rightarrow>
          if stw_ret sig = - 1 then
            (if stw_errno sig = EAGAIN then Some (0, w1)
             else if stw_errno sig = EINTR then Some (0, w1)
             else Some (1, PRINT_FATAL ''Unexpected error in sigtimedwait: %s'' w1))
          else
            (if stw_signo sig = SIGCHLD then Some (0, PRINT_DEBUG ''Received SIGCHLD'' w1)
             else
               (case kill child_pid (stw_signo sig) (PRINT_DEBUG ''Passing signal: %s'' w1) of
                  None \<Rightarrow> None
                | Some (k, w2) \<Rightarrow>
                    if kill_ret k \<noteq> 0 then
                      (if kill_errno k = ESRCH
                       then Some (0, PRINT_WARNING ''Child was dead when forwarding signal'' w2)
                       else Some (1,
                         PRINT_FATAL ''Unexpected error when forwarding signal: %s'' w2))
                    else Some (0, w2))))"

subsection \<open>\<^verbatim>\<open>reap_zombies\<close>\<close>

text \<open>
  The second argument and the second component of the result are \<^verbatim>\<open>*child_exitcode_ptr\<close>
  before and after the call. A recursive call is the \<^verbatim>\<open>continue\<close> of the
  \<^verbatim>\<open>while (1)\<close> loop.
\<close>

lemma waitpid_shorter:
  "waitpid w = Some (a, w1) \<Longrightarrow> length (waitpid_tape w1) < length (waitpid_tape w)"
  by (auto simp: waitpid_def emit_def split: list.splits)

lemma PRINT_waitpid_tape [simp]:
  "waitpid_tape (PRINT_FATAL m w) = waitpid_tape w"
  "waitpid_tape (PRINT_WARNING m w) = waitpid_tape w"
  "waitpid_tape (PRINT_INFO m w) = waitpid_tape w"
  "waitpid_tape (PRINT_DEBUG m w) = waitpid_tape w"
  "waitpid_tape (PRINT_TRACE m w) = waitpid_tape w"
  by (simp_all add: PRINT_FATAL_def PRINT_WARNING_def PRINT_INFO_def PRINT_DEBUG_def
      PRINT_TRACE_def emit_def)

function reap_zombies :: "int \<Rightarrow> int \<Rightarrow> world \<Rightarrow> (int \<times> int \<times> world) option" where
  "reap_zombies child_pid child_exitcode w =
     (case waitpid w of
        None \<Rightarrow> None
      | Some (cur, w1) \<Rightarrow>
          if wp_ret cur = - 1 then
            (if wp_errno cur = ECHILD
             then Some (0, child_exitcode, PRINT_TRACE ''No child to wait.'' w1)
             else Some (1, child_exitcode,
               PRINT_FATAL ''Error while waiting for pids: %s'' w1))
          else if wp_ret cur = 0
            then Some (0, child_exitcode, PRINT_TRACE ''No child to reap.'' w1)
          else
            (let w2 = PRINT_DEBUG ''Reaped child with pid: %i'' w1 in
             if wp_ret cur = child_pid then
               (if WIFEXITED (wp_status cur) then
                  reap_zombies child_pid (WEXITSTATUS (wp_status cur))
                    (PRINT_INFO ''Main child exited normally (with status %i)'' w2)
                else if WIFSIGNALED (wp_status cur) then
                  reap_zombies child_pid (128 + WTERMSIG (wp_status cur))
                    (PRINT_INFO ''Main child exited with signal (with signal %s)'' w2)
                else Some (1, child_exitcode,
                  PRINT_FATAL ''Main child exited for unknown reason!'' w2))
             else reap_zombies child_pid child_exitcode w2))"
  by pat_completeness auto
termination
  by (relation "measure (\<lambda>(p, e, w). length (waitpid_tape w))")
     (auto dest: waitpid_shorter)

declare reap_zombies.simps [simp del]

section \<open>Reading one pass of \<^verbatim>\<open>reap_zombies\<close>\<close>

text \<open>
  One equation per path through the body of the \<^verbatim>\<open>while (1)\<close> loop, then the
  vocabulary in which the claims speak of an answer of \<^verbatim>\<open>waitpid\<close>: the answer lets
  the loop go on (\<open>continues\<close>), ends the pass without an error (\<open>ends_pass\<close>) or is
  fatal (\<open>fatal_answer\<close>); \<open>record_exit\<close> is the value of \<^verbatim>\<open>*child_exitcode_ptr\<close>
  after an answer that lets the loop go on.
\<close>

lemma reap_zombies_None: "waitpid w = None \<Longrightarrow> reap_zombies p e w = None"
  by (subst reap_zombies.simps) simp

lemma reap_zombies_error:
  "waitpid w = Some (cur, w1) \<Longrightarrow> wp_ret cur = - 1 \<Longrightarrow> wp_errno cur \<noteq> ECHILD \<Longrightarrow>
   reap_zombies p e w = Some (1, e, PRINT_FATAL ''Error while waiting for pids: %s'' w1)"
  by (subst reap_zombies.simps) simp

lemma reap_zombies_echild:
  "waitpid w = Some (cur, w1) \<Longrightarrow> wp_ret cur = - 1 \<Longrightarrow> wp_errno cur = ECHILD \<Longrightarrow>
   reap_zombies p e w = Some (0, e, PRINT_TRACE ''No child to wait.'' w1)"
  by (subst reap_zombies.simps) simp

lemma reap_zombies_nothing:
  "waitpid w = Some (cur, w1) \<Longrightarrow> wp_ret cur = 0 \<Longrightarrow>
   reap_zombies p e w = Some (0, e, PRINT_TRACE ''No child to reap.'' w1)"
  by (subst reap_zombies.simps) simp

lemma reap_zombies_other:
  "waitpid w = Some (cur, w1) \<Longrightarrow> wp_ret cur \<noteq> - 1 \<Longrightarrow> wp_ret cur \<noteq> 0 \<Longrightarrow>
   wp_ret cur \<noteq> p \<Longrightarrow>
   reap_zombies p e w = reap_zombies p e (PRINT_DEBUG ''Reaped child with pid: %i'' w1)"
  by (subst reap_zombies.simps) simp

lemma reap_zombies_exited:
  "waitpid w = Some (cur, w1) \<Longrightarrow> wp_ret cur \<noteq> - 1 \<Longrightarrow> wp_ret cur \<noteq> 0 \<Longrightarrow>
   wp_ret cur = p \<Longrightarrow> WIFEXITED (wp_status cur) \<Longrightarrow>
   reap_zombies p e w = reap_zombies p (WEXITSTATUS (wp_status cur))
     (PRINT_INFO ''Main child exited normally (with status %i)''
       (PRINT_DEBUG ''Reaped child with pid: %i'' w1))"
  by (subst reap_zombies.simps) simp

lemma reap_zombies_signaled:
  "waitpid w = Some (cur, w1) \<Longrightarrow> wp_ret cur \<noteq> - 1 \<Longrightarrow> wp_ret cur \<noteq> 0 \<Longrightarrow>
   wp_ret cur = p \<Longrightarrow> \<not> WIFEXITED (wp_status cur) \<Longrightarrow> WIFSIGNALED (wp_status cur) \<Longrightarrow>
   reap_zombies p e w = reap_zombies p (128 + WTERMSIG (wp_status cur))
     (PRINT_INFO ''Main child exited with signal (with signal %s)''
       (PRINT_DEBUG ''Reaped child with pid: %i'' w1))"
  by (subst reap_zombies.simps) simp

lemma reap_zombies_unknown:
  "waitpid w = Some (cur, w1) \<Longrightarrow> wp_ret cur \<noteq> - 1 \<Longrightarrow> wp_ret cur \<noteq> 0 \<Longrightarrow>
   wp_ret cur = p \<Longrightarrow> \<not> WIFEXITED (wp_status cur) \<Longrightarrow> \<not> WIFSIGNALED (wp_status cur) \<Longrightarrow>
   reap_zombies p e w =
     Some (1, e, PRINT_FATAL ''Main child exited for unknown reason!''
       (PRINT_DEBUG ''Reaped child with pid: %i'' w1))"
  by (subst reap_zombies.simps) simp

definition continues :: "int \<Rightarrow> waitpid_ans \<Rightarrow> bool" where
  "continues p a \<longleftrightarrow>
     wp_ret a \<noteq> - 1 \<and> wp_ret a \<noteq> 0 \<and>
     (wp_ret a = p \<longrightarrow> WIFEXITED (wp_status a) \<or> WIFSIGNALED (wp_status a))"

definition ends_pass :: "waitpid_ans \<Rightarrow> bool" where
  "ends_pass a \<longleftrightarrow> wp_ret a = 0 \<or> (wp_ret a = - 1 \<and> wp_errno a = ECHILD)"

definition fatal_answer :: "int \<Rightarrow> waitpid_ans \<Rightarrow> bool" where
  "fatal_answer p a \<longleftrightarrow>
     (wp_ret a = - 1 \<and> wp_errno a \<noteq> ECHILD) \<or>
     (wp_ret a \<noteq> - 1 \<and> wp_ret a \<noteq> 0 \<and> wp_ret a = p \<and>
      \<not> WIFEXITED (wp_status a) \<and> \<not> WIFSIGNALED (wp_status a))"

definition record_exit :: "int \<Rightarrow> int \<Rightarrow> waitpid_ans \<Rightarrow> int" where
  "record_exit p e a =
     (if wp_ret a = p then
        (if WIFEXITED (wp_status a) then WEXITSTATUS (wp_status a)
         else 128 + WTERMSIG (wp_status a))
      else e)"

definition only_reaping :: "event list \<Rightarrow> bool" where
  "only_reaping evs = list_all (\<lambda>e. case e of Sys_waitpid \<Rightarrow> True | Print l m \<Rightarrow> True | _ \<Rightarrow> False) evs"

lemma answer_cases:
  "continues p a \<or> ends_pass a \<or> fatal_answer p a"
  by (auto simp: continues_def ends_pass_def fatal_answer_def)

lemma waitpid_Cons:
  "waitpid_tape w = a # as \<Longrightarrow> waitpid w = Some (a, emit Sys_waitpid (w\<lparr>waitpid_tape := as\<rparr>))"
  by (simp add: waitpid_def)

lemmas PRINT_defs =
  PRINT_FATAL_def PRINT_WARNING_def PRINT_INFO_def PRINT_DEBUG_def PRINT_TRACE_def

lemma reap_zombies_last:
  assumes tape: "waitpid_tape w = a # rest" and a: "\<not> continues p a"
  shows "\<exists>evs. reap_zombies p e w =
           Some (if ends_pass a then 0 else 1, e,
             w\<lparr>waitpid_tape := rest, trace := trace w @ Sys_waitpid # evs\<rparr>)
         \<and> only_reaping evs"
proof -
  note wp = waitpid_Cons [OF tape]
  consider (echild) "wp_ret a = - 1" "wp_errno a = ECHILD"
    | (error) "wp_ret a = - 1" "wp_errno a \<noteq> ECHILD"
    | (none_ready) "wp_ret a = 0"
    | (unknown) "wp_ret a \<noteq> - 1" "wp_ret a \<noteq> 0" "wp_ret a = p"
        "\<not> WIFEXITED (wp_status a)" "\<not> WIFSIGNALED (wp_status a)"
    using a by (auto simp: continues_def)
  then show ?thesis
  proof cases
    case echild
    show ?thesis
      using reap_zombies_echild [OF wp echild, of p e] echild
      by (intro exI [of _
            "(if verbosity w > 3 then [Print TRACE ''No child to wait.''] else [])"])
         (simp add: ends_pass_def PRINT_defs emit_def only_reaping_def)
  next
    case error
    show ?thesis
      using reap_zombies_error [OF wp error, of p e] error
      by (intro exI [of _
            "[Print FATAL ''Error while waiting for pids: %s'']"])
         (simp add: ends_pass_def PRINT_defs emit_def only_reaping_def)
  next
    case none_ready
    show ?thesis
      using reap_zombies_nothing [OF wp none_ready, of p e] none_ready
      by (intro exI [of _
            "(if verbosity w > 3 then [Print TRACE ''No child to reap.''] else [])"])
         (simp add: ends_pass_def PRINT_defs emit_def only_reaping_def)
  next
    case unknown
    show ?thesis
      using reap_zombies_unknown [OF wp unknown, of e] unknown
      by (intro exI [of _
            "(if verbosity w > 2 then [Print DEBUG ''Reaped child with pid: %i''] else [])
            @ [Print FATAL ''Main child exited for unknown reason!'']"])
         (simp add: ends_pass_def PRINT_defs emit_def only_reaping_def)
  qed
qed

lemma reap_zombies_continue:
  assumes tape: "waitpid_tape w = a # rest" and a: "continues p a"
  shows "\<exists>evs. reap_zombies p e w =
           reap_zombies p (record_exit p e a)
             (w\<lparr>waitpid_tape := rest, trace := trace w @ Sys_waitpid # evs\<rparr>)
         \<and> only_reaping evs"
proof -
  note wp = waitpid_Cons [OF tape]
  from a have r: "wp_ret a \<noteq> - 1" "wp_ret a \<noteq> 0" by (auto simp: continues_def)
  consider (other) "wp_ret a \<noteq> p"
    | (exited) "wp_ret a = p" "WIFEXITED (wp_status a)"
    | (signaled) "wp_ret a = p" "\<not> WIFEXITED (wp_status a)" "WIFSIGNALED (wp_status a)"
    using a by (auto simp: continues_def)
  then show ?thesis
  proof cases
    case other
    show ?thesis
      using reap_zombies_other [OF wp r other, of e] other
      by (intro exI [of _
            "(if verbosity w > 2 then [Print DEBUG ''Reaped child with pid: %i''] else [])"])
         (simp add: record_exit_def PRINT_defs emit_def only_reaping_def)
  next
    case exited
    show ?thesis
      using reap_zombies_exited [OF wp r exited, of e] exited
      by (intro exI [of _
            "(if verbosity w > 2 then [Print DEBUG ''Reaped child with pid: %i''] else [])
            @ (if verbosity w > 1 then [Print INFO ''Main child exited normally (with status %i)''] else [])"])
         (simp add: record_exit_def PRINT_defs emit_def only_reaping_def)
  next
    case signaled
    show ?thesis
      using reap_zombies_signaled [OF wp r signaled, of e] signaled
      by (intro exI [of _
            "(if verbosity w > 2 then [Print DEBUG ''Reaped child with pid: %i''] else [])
            @ (if verbosity w > 1 then [Print INFO ''Main child exited with signal (with signal %s)''] else [])"])
         (simp add: record_exit_def PRINT_defs emit_def only_reaping_def)
  qed
qed

lemma only_reaping_append [simp]:
  "only_reaping (xs @ ys) \<longleftrightarrow> only_reaping xs \<and> only_reaping ys"
  by (simp add: only_reaping_def)

lemma only_reaping_waitpid [simp]:
  "only_reaping (Sys_waitpid # evs) \<longleftrightarrow> only_reaping evs"
  by (simp add: only_reaping_def)

lemma reap_zombies_pass:
  assumes "waitpid_tape w = pre @ a # rest" and "list_all (continues p) pre"
    and "\<not> continues p a"
  shows "\<exists>evs. reap_zombies p e w =
           Some (if ends_pass a then 0 else 1, foldl (record_exit p) e pre,
             w\<lparr>waitpid_tape := rest, trace := trace w @ Sys_waitpid # evs\<rparr>)
         \<and> only_reaping evs"
  using assms
proof (induction pre arbitrary: w e)
  case Nil
  then show ?case using reap_zombies_last [of w a rest p e] by simp
next
  case (Cons b pre)
  from Cons.prems have tape: "waitpid_tape w = b # (pre @ a # rest)" and b: "continues p b"
    and pre: "list_all (continues p) pre"
    by simp_all
  from reap_zombies_continue [OF tape b, of e] obtain evs1 where
    step: "reap_zombies p e w = reap_zombies p (record_exit p e b)
             (w\<lparr>waitpid_tape := pre @ a # rest, trace := trace w @ Sys_waitpid # evs1\<rparr>)"
    and evs1: "only_reaping evs1"
    by blast
  let ?w1 = "w\<lparr>waitpid_tape := pre @ a # rest, trace := trace w @ Sys_waitpid # evs1\<rparr>"
  have "waitpid_tape ?w1 = pre @ a # rest" by simp
  from Cons.IH [OF this pre Cons.prems(3), of "record_exit p e b"] obtain evs2 where
    rest: "reap_zombies p (record_exit p e b) ?w1 =
             Some (if ends_pass a then 0 else 1, foldl (record_exit p) (record_exit p e b) pre,
               ?w1\<lparr>waitpid_tape := rest, trace := trace ?w1 @ Sys_waitpid # evs2\<rparr>)"
    and evs2: "only_reaping evs2"
    by blast
  show ?case
    by (rule exI [of _ "evs1 @ Sys_waitpid # evs2"]) (simp add: step rest evs1 evs2)
qed

lemma reap_zombies_exhausted:
  assumes "list_all (continues p) (waitpid_tape w)"
  shows "reap_zombies p e w = None"
  using assms
proof (induction ws \<equiv> "waitpid_tape w" arbitrary: w e)
  case Nil
  then show ?case by (simp add: reap_zombies_None waitpid_def)
next
  case (Cons b ws)
  from Cons.hyps(2) have tape: "waitpid_tape w = b # ws" by simp
  with Cons.prems have b: "continues p b" and ws: "list_all (continues p) ws" by simp_all
  from reap_zombies_continue [OF tape b, of e] obtain evs1 where
    step: "reap_zombies p e w = reap_zombies p (record_exit p e b)
             (w\<lparr>waitpid_tape := ws, trace := trace w @ Sys_waitpid # evs1\<rparr>)"
    by blast
  show ?case
    unfolding step by (rule Cons.hyps(1)) (simp_all add: ws)
qed

lemma reap_zombies_frame:
  assumes "reap_zombies p e w = Some (r, e', w')"
  shows "\<exists>evs. w' = w\<lparr>waitpid_tape := waitpid_tape w', trace := trace w @ Sys_waitpid # evs\<rparr>
           \<and> only_reaping evs"
proof (cases "list_all (continues p) (waitpid_tape w)")
  case True
  from reap_zombies_exhausted [OF this, of e] assms show ?thesis by simp
next
  case False
  then have "\<exists>a \<in> set (waitpid_tape w). \<not> continues p a"
    by (simp add: list_all_iff)
  from split_list_first_prop [OF this] obtain pre a rest where
    tape: "waitpid_tape w = pre @ a # rest" and a: "\<not> continues p a"
    and pre: "\<forall>b \<in> set pre. \<not> \<not> continues p b"
    by blast
  from pre have "list_all (continues p) pre" by (simp add: list_all_iff)
  from reap_zombies_pass [OF tape this a, of e] assms show ?thesis by auto
qed

lemma reap_zombies_sigtimedwait_tape:
  assumes "reap_zombies p e w = Some (r, e', w')"
  shows "sigtimedwait_tape w' = sigtimedwait_tape w"
proof -
  from reap_zombies_frame [OF assms] obtain evs where
    "w' = w\<lparr>waitpid_tape := waitpid_tape w', trace := trace w @ Sys_waitpid # evs\<rparr>" by blast
  then have "sigtimedwait_tape w' =
    sigtimedwait_tape (w\<lparr>waitpid_tape := waitpid_tape w', trace := trace w @ Sys_waitpid # evs\<rparr>)"
    by simp
  then show ?thesis by simp
qed


subsection \<open>\<^verbatim>\<open>main\<close>\<close>

text \<open>
  How the process followed ends: \<open>Exit c\<close> when \<^verbatim>\<open>main\<close> returns \<open>c\<close>, \<open>Exec argv\<close>
  when it is the forked child and \<^verbatim>\<open>execvp\<close> has replaced its image, \<open>Undefined\<close> when
  \<^verbatim>\<open>parse_args\<close> has left defined behaviour.
\<close>

datatype outcome = Exit int | Exec "string list" | Undefined

lemma PRINT_sigtimedwait_tape [simp]:
  "sigtimedwait_tape (PRINT_FATAL m w) = sigtimedwait_tape w"
  "sigtimedwait_tape (PRINT_WARNING m w) = sigtimedwait_tape w"
  "sigtimedwait_tape (PRINT_INFO m w) = sigtimedwait_tape w"
  "sigtimedwait_tape (PRINT_DEBUG m w) = sigtimedwait_tape w"
  "sigtimedwait_tape (PRINT_TRACE m w) = sigtimedwait_tape w"
  by (simp_all add: PRINT_FATAL_def PRINT_WARNING_def PRINT_INFO_def PRINT_DEBUG_def
      PRINT_TRACE_def emit_def)

lemma wait_and_forward_signal_shorter:
  assumes "wait_and_forward_signal S p w = Some (r, w1)"
  shows "length (sigtimedwait_tape w1) < length (sigtimedwait_tape w)"
  using assms
  by (auto simp: wait_and_forward_signal_def sigtimedwait_def kill_def emit_def
      split: list.splits if_splits option.splits)

text \<open>
  The \<^verbatim>\<open>while (1)\<close> loop of \<^verbatim>\<open>main\<close>. \<open>None\<close> is a run the script of the
  environment does not determine to its end: the supervisor is still in the loop when
  the answers are used up.
\<close>

function main_loop :: "int set \<Rightarrow> int \<Rightarrow> int \<Rightarrow> world \<Rightarrow> (outcome \<times> world) option" where
  "main_loop parent_sigset child_pid child_exitcode w =
     (case wait_and_forward_signal parent_sigset child_pid w of
        None \<Rightarrow> None
      | Some (r1, w1) \<Rightarrow>
          if r1 \<noteq> 0 then Some (Exit 1, w1)
          else
            (case reap_zombies child_pid child_exitcode w1 of
               None \<Rightarrow> None
             | Some (r2, exitcode, w2) \<Rightarrow>
                 if r2 \<noteq> 0 then Some (Exit 1, w2)
                 else if exitcode \<noteq> - 1
                   then Some (Exit exitcode, PRINT_TRACE ''Child has exited. Exiting'' w2)
                 else main_loop parent_sigset child_pid exitcode w2))"
  by pat_completeness auto
termination
  by (relation "measure (\<lambda>(S, p, e, w). length (sigtimedwait_tape w))")
     (auto dest!: wait_and_forward_signal_shorter reap_zombies_sigtimedwait_tape)

declare main_loop.simps [simp del]

definition main :: "string list \<Rightarrow> world \<Rightarrow> (outcome \<times> world) option" where
  "main argv w =
     (let child_exitcode = - 1; parse_exitcode = 1 in
      case prepare_sigmask w of
        (Inl r, w1) \<Rightarrow> Some (Exit 1, w1)
      | (Inr (parent_sigset, child_sigset), w1) \<Rightarrow>
          (case parse_args argv parse_exitcode w1 of
             (None, parse_exitcode', w2) \<Rightarrow> Some (Undefined, w2)
           | (Some (Inl r), parse_exitcode', w2) \<Rightarrow> Some (Exit parse_exitcode', w2)
           | (Some (Inr child_args), parse_exitcode', w2) \<Rightarrow>
               (case spawn child_sigset child_args w2 of
                  (None, w3) \<Rightarrow> Some (Exec child_args, w3)
                | (Some (Inl r), w3) \<Rightarrow> Some (Exit 1, w3)
                | (Some (Inr child_pid), w3) \<Rightarrow>
                    main_loop parent_sigset child_pid child_exitcode w3)))"

section \<open>Properties of the supervisor\<close>

text \<open>
  A world in which nothing fails and no answer is scripted; the concrete runs below are
  obtained from it by filling in the answers of the environment.
\<close>

definition idle_world :: world where
  "idle_world =
     \<lparr>verbosity = 0, sigmask = {}, trace = [], full_sigset = {1..64},
      sigfillset_ret = 0, sigdelset_ret = (\<lambda>s. 0), sigprocmask_ret = 0,
      getopt_tape = [], optind = 1, calloc_ok = True, fork_ret = 5,
      child_sigprocmask_ret = 0, execvp_ok = True,
      sigtimedwait_tape = [], kill_tape = [], waitpid_tape = []\<rparr>"

lemma ends_pass_not_continues: "ends_pass a \<Longrightarrow> \<not> continues p a"
  by (auto simp: ends_pass_def continues_def)

lemma fatal_answer_not_continues: "fatal_answer p a \<Longrightarrow> \<not> continues p a"
  by (auto simp: fatal_answer_def continues_def)

lemma ends_pass_not_fatal: "ends_pass a \<Longrightarrow> \<not> fatal_answer p a"
  by (auto simp: ends_pass_def fatal_answer_def)

lemma not_continues_cases: "\<not> continues p a \<Longrightarrow> ends_pass a \<or> fatal_answer p a"
  using answer_cases [of p a] by simp

subsection \<open>When \<^verbatim>\<open>reap_zombies\<close> is fatal\<close>

text \<open>
  Claim C5. A pass of \<^verbatim>\<open>reap_zombies\<close> collects descendants as long as the answers of
  \<^verbatim>\<open>waitpid\<close> let the loop continue, and returns at the first answer \<open>a\<close> that does
  not. It returns non-zero exactly when \<open>a\<close> is an error of \<^verbatim>\<open>waitpid\<close> other than
  \<^verbatim>\<open>ECHILD\<close> or reports the main child with a status that is neither a normal exit nor a
  death by signal, and it returns \<open>0\<close> exactly when \<open>a\<close> says that nothing has terminated
  (\<^verbatim>\<open>0\<close>) or that there is no descendant (\<^verbatim>\<open>ECHILD\<close>).
\<close>

theorem reap_zombies_fatal_iff:
  assumes tape: "waitpid_tape w = pre @ a # rest"
    and pre: "list_all (continues child_pid) pre"
    and a: "ends_pass a \<or> fatal_answer child_pid a"
  shows "\<exists>r e' w'. reap_zombies child_pid e w = Some (r, e', w') \<and> waitpid_tape w' = rest \<and>
           (r \<noteq> 0 \<longleftrightarrow> fatal_answer child_pid a) \<and> (r = 0 \<longleftrightarrow> ends_pass a)"
proof -
  from a have nc: "\<not> continues child_pid a"
    using ends_pass_not_continues fatal_answer_not_continues by blast
  from reap_zombies_pass [OF tape pre nc, of e] obtain evs where
    res: "reap_zombies child_pid e w =
            Some (if ends_pass a then 0 else 1, foldl (record_exit child_pid) e pre,
              w\<lparr>waitpid_tape := rest, trace := trace w @ Sys_waitpid # evs\<rparr>)"
    by blast
  have iff: "fatal_answer child_pid a \<longleftrightarrow> \<not> ends_pass a"
    using a ends_pass_not_fatal by blast
  show ?thesis
    unfolding res by (simp add: iff)
qed

theorem reap_zombies_fatal_iff_witness:
  "(\<exists>r e' w'. reap_zombies 5 (- 1)
       (idle_world\<lparr>waitpid_tape :=
          [Waitpid_ans 9 (Exited 0) 0, Waitpid_ans 5 (Stopped 19) 0, Waitpid_ans 0 Continued 0]\<rparr>)
       = Some (r, e', w') \<and> waitpid_tape w' = [Waitpid_ans 0 Continued 0] \<and> r \<noteq> 0)
   \<and> (\<exists>r e' w'. reap_zombies 5 (- 1)
       (idle_world\<lparr>waitpid_tape :=
          [Waitpid_ans 9 (Exited 0) 0, Waitpid_ans (- 1) Continued ECHILD]\<rparr>)
       = Some (r, e', w') \<and> waitpid_tape w' = [] \<and> r = 0)"
proof -
  let ?o = "Waitpid_ans 9 (Exited 0) 0"
  let ?s = "Waitpid_ans 5 (Stopped 19) 0"
  let ?z = "Waitpid_ans 0 Continued 0"
  let ?c = "Waitpid_ans (- 1) Continued ECHILD"
  have o: "list_all (continues 5) [?o]" by (simp add: continues_def)
  have s: "fatal_answer 5 ?s" by (simp add: fatal_answer_def)
  have c: "ends_pass ?c" by (simp add: ends_pass_def)
  have "\<exists>r e' w'. reap_zombies 5 (- 1) (idle_world\<lparr>waitpid_tape := [?o, ?s, ?z]\<rparr>)
          = Some (r, e', w') \<and> waitpid_tape w' = [?z] \<and> r \<noteq> 0"
    using reap_zombies_fatal_iff [of "idle_world\<lparr>waitpid_tape := [?o, ?s, ?z]\<rparr>"
        "[?o]" ?s "[?z]" 5 "- 1"] o s
    by auto
  moreover
  have "\<exists>r e' w'. reap_zombies 5 (- 1) (idle_world\<lparr>waitpid_tape := [?o, ?c]\<rparr>)
          = Some (r, e', w') \<and> waitpid_tape w' = [] \<and> r = 0"
    using reap_zombies_fatal_iff [of "idle_world\<lparr>waitpid_tape := [?o, ?c]\<rparr>"
        "[?o]" ?c "[]" 5 "- 1"] o c
    by auto
  ultimately show ?thesis by blast
qed

subsection \<open>Draining when nothing has terminated\<close>

text \<open>
  \<open>reap_repeat n\<close> calls \<^verbatim>\<open>reap_zombies\<close> \<open>n\<close> times in a row, as the loop of
  \<^verbatim>\<open>main\<close> does over \<open>n\<close> iterations, handing each call the exit code and the world
  the previous call left; it collects the \<open>n\<close> return values.
\<close>

fun reap_repeat :: "nat \<Rightarrow> int \<Rightarrow> int \<Rightarrow> world \<Rightarrow> (int list \<times> int \<times> world) option" where
  "reap_repeat 0 child_pid e w = Some ([], e, w)"
| "reap_repeat (Suc n) child_pid e w =
     (case reap_zombies child_pid e w of
        None \<Rightarrow> None
      | Some (r, e1, w1) \<Rightarrow>
          (case reap_repeat n child_pid e1 w1 of
             None \<Rightarrow> None
           | Some (rs, e2, w2) \<Rightarrow> Some (r # rs, e2, w2)))"

text \<open>Calls of \<^verbatim>\<open>waitpid\<close> and lines of the trace level, nothing else.\<close>

definition only_polling :: "event list \<Rightarrow> bool" where
  "only_polling evs =
     list_all (\<lambda>e. case e of Sys_waitpid \<Rightarrow> True | Print TRACE m \<Rightarrow> True | _ \<Rightarrow> False) evs"

lemma only_polling_append [simp]:
  "only_polling (xs @ ys) \<longleftrightarrow> only_polling xs \<and> only_polling ys"
  by (simp add: only_polling_def)

lemma reap_zombies_idle:
  assumes tape: "waitpid_tape w = a # rest" and a: "ends_pass a"
  shows "\<exists>evs. reap_zombies p e w =
           Some (0, e, w\<lparr>waitpid_tape := rest, trace := trace w @ evs\<rparr>) \<and> only_polling evs"
proof -
  note wp = waitpid_Cons [OF tape]
  from a consider (none_ready) "wp_ret a = 0" | (echild) "wp_ret a = - 1" "wp_errno a = ECHILD"
    by (auto simp: ends_pass_def)
  then show ?thesis
  proof cases
    case none_ready
    show ?thesis
      using reap_zombies_nothing [OF wp none_ready, of p e]
      by (intro exI [of _ "Sys_waitpid #
            (if verbosity w > 3 then [Print TRACE ''No child to reap.''] else [])"])
         (simp add: PRINT_defs emit_def only_polling_def)
  next
    case echild
    show ?thesis
      using reap_zombies_echild [OF wp echild, of p e]
      by (intro exI [of _ "Sys_waitpid #
            (if verbosity w > 3 then [Print TRACE ''No child to wait.''] else [])"])
         (simp add: PRINT_defs emit_def only_polling_def)
  qed
qed

text \<open>
  Claim C7. When each of the next \<open>n\<close> answers of \<^verbatim>\<open>waitpid\<close> says that no descendant
  has terminated (\<^verbatim>\<open>0\<close>, or \<^verbatim>\<open>-1\<close> with \<^verbatim>\<open>ECHILD\<close>), \<open>n\<close> calls of
  \<^verbatim>\<open>reap_zombies\<close> in a row all return \<open>0\<close> and leave the recorded exit code as it
  was, in particular unset when it was unset. The world afterwards is the world before
  but for the \<open>n\<close> answers consumed and the trace, to which only the calls of
  \<^verbatim>\<open>waitpid\<close> and trace-level lines were added: the verbosity, the signal mask and the
  other answers of the environment are untouched.
\<close>

theorem reap_zombies_idempotent:
  assumes "n \<le> length (waitpid_tape w)"
    and "list_all ends_pass (take n (waitpid_tape w))"
  shows "\<exists>evs. reap_repeat n child_pid e w =
           Some (replicate n 0, e,
             w\<lparr>waitpid_tape := drop n (waitpid_tape w), trace := trace w @ evs\<rparr>)
         \<and> only_polling evs"
  using assms
proof (induction n arbitrary: w)
  case 0
  show ?case by (intro exI [of _ "[]"]) (simp add: only_polling_def)
next
  case (Suc n)
  from Suc.prems(1) obtain a rest where tape: "waitpid_tape w = a # rest"
    by (cases "waitpid_tape w") auto
  from Suc.prems(2) tape have a: "ends_pass a" and rest: "list_all ends_pass (take n rest)"
    by simp_all
  from reap_zombies_idle [OF tape a, of child_pid e] obtain evs1 where
    first: "reap_zombies child_pid e w =
              Some (0, e, w\<lparr>waitpid_tape := rest, trace := trace w @ evs1\<rparr>)"
    and evs1: "only_polling evs1"
    by blast
  let ?w1 = "w\<lparr>waitpid_tape := rest, trace := trace w @ evs1\<rparr>"
  have len: "n \<le> length (waitpid_tape ?w1)" using Suc.prems(1) tape by simp
  have idle: "list_all ends_pass (take n (waitpid_tape ?w1))" using rest by simp
  from Suc.IH [OF len idle] obtain evs2 where
    later: "reap_repeat n child_pid e ?w1 =
              Some (replicate n 0, e,
                ?w1\<lparr>waitpid_tape := drop n (waitpid_tape ?w1), trace := trace ?w1 @ evs2\<rparr>)"
    and evs2: "only_polling evs2"
    by blast
  show ?case
    by (intro exI [of _ "evs1 @ evs2"]) (simp add: first later evs1 evs2 tape)
qed

theorem reap_zombies_idempotent_witness:
  "\<exists>evs. reap_repeat 3 5 (- 1)
     (idle_world\<lparr>waitpid_tape :=
        [Waitpid_ans 0 Continued 0, Waitpid_ans (- 1) Continued ECHILD,
         Waitpid_ans 0 Continued 0, Waitpid_ans 5 (Exited 7) 0]\<rparr>)
   = Some ([0, 0, 0], - 1,
       idle_world\<lparr>waitpid_tape := [Waitpid_ans 5 (Exited 7) 0], trace := evs\<rparr>)
   \<and> only_polling evs"
proof -
  let ?w = "idle_world\<lparr>waitpid_tape :=
        [Waitpid_ans 0 Continued 0, Waitpid_ans (- 1) Continued ECHILD,
         Waitpid_ans 0 Continued 0, Waitpid_ans 5 (Exited 7) 0]\<rparr>"
  have len: "3 \<le> length (waitpid_tape ?w)" by simp
  have idle: "list_all ends_pass (take 3 (waitpid_tape ?w))"
    by (simp add: ends_pass_def numeral_3_eq_3)
  have empty: "trace ?w = []" by (simp add: idle_world_def)
  show ?thesis
    using reap_zombies_idempotent [OF len idle, of 5 "- 1"]
    by (simp add: numeral_3_eq_3 empty)
qed

subsection \<open>The recorded exit code\<close>

text \<open>An answer of \<^verbatim>\<open>waitpid\<close> that reports a pid other than the main child's.\<close>

definition other_descendant :: "int \<Rightarrow> waitpid_ans \<Rightarrow> bool" where
  "other_descendant p a \<longleftrightarrow> wp_ret a \<noteq> - 1 \<and> wp_ret a \<noteq> 0 \<and> wp_ret a \<noteq> p"

lemma other_descendant_continues: "other_descendant p a \<Longrightarrow> continues p a"
  by (simp add: other_descendant_def continues_def)

lemma list_all_other_continues:
  "list_all (other_descendant p) xs \<Longrightarrow> list_all (continues p) xs"
  by (induction xs) (simp_all add: other_descendant_continues)

lemma foldl_record_exit_other:
  "list_all (other_descendant p) xs \<Longrightarrow> foldl (record_exit p) e xs = e"
  by (induction xs arbitrary: e) (simp_all add: other_descendant_def record_exit_def)

lemma main_loop_done:
  assumes "wait_and_forward_signal S p w = Some (0, w1)"
    and "reap_zombies p e w1 = Some (0, e', w2)" and "e' \<noteq> - 1"
  shows "main_loop S p e w = Some (Exit e', PRINT_TRACE ''Child has exited. Exiting'' w2)"
  by (subst main_loop.simps) (simp add: assms)

text \<open>
  Claim C6, as amended. \<^verbatim>\<open>reap_zombies\<close> compares pids and has no guard on a code
  already set, so the claim that the code is written at most once fails when
  \<^verbatim>\<open>waitpid\<close> reports the pid of the main child a second time (a recycled pid). What
  holds: a pass that collects only descendants whose pid differs from the main child's
  returns the exit code it was given, set or unset; and once a pass has returned \<open>0\<close> with
  the code set, \<^verbatim>\<open>main\<close> returns that code without another call of \<^verbatim>\<open>reap_zombies\<close>.
\<close>

theorem exitcode_kept_by_other_descendants:
  "(waitpid_tape w = pre @ a # rest \<and> list_all (other_descendant child_pid) pre \<and>
      (ends_pass a \<or> fatal_answer child_pid a)
     \<longrightarrow> (\<exists>r w'. reap_zombies child_pid e w = Some (r, e, w')))
   \<and> (wait_and_forward_signal S child_pid v = Some (0, v1) \<and>
      reap_zombies child_pid c v1 = Some (0, c', v2) \<and> c' \<noteq> - 1
     \<longrightarrow> main_loop S child_pid c v =
           Some (Exit c', PRINT_TRACE ''Child has exited. Exiting'' v2))"
proof (intro conjI impI)
  assume h: "waitpid_tape w = pre @ a # rest \<and> list_all (other_descendant child_pid) pre \<and>
      (ends_pass a \<or> fatal_answer child_pid a)"
  then have tape: "waitpid_tape w = pre @ a # rest"
    and pre: "list_all (other_descendant child_pid) pre"
    and a: "\<not> continues child_pid a"
    using ends_pass_not_continues fatal_answer_not_continues by blast+
  from reap_zombies_pass [OF tape list_all_other_continues [OF pre] a, of e]
  show "\<exists>r w'. reap_zombies child_pid e w = Some (r, e, w')"
    by (auto simp: foldl_record_exit_other [OF pre])
next
  assume "wait_and_forward_signal S child_pid v = Some (0, v1) \<and>
      reap_zombies child_pid c v1 = Some (0, c', v2) \<and> c' \<noteq> - 1"
  then show "main_loop S child_pid c v =
      Some (Exit c', PRINT_TRACE ''Child has exited. Exiting'' v2)"
    by (simp add: main_loop_done)
qed


theorem exitcode_kept_by_other_descendants_witness:
  "(\<exists>r w'. reap_zombies 5 3
       (idle_world\<lparr>waitpid_tape :=
          [Waitpid_ans 8 (Exited 1) 0, Waitpid_ans 9 (Signaled 15) 0,
           Waitpid_ans 0 Continued 0]\<rparr>) = Some (r, 3, w'))
   \<and> (\<exists>w'. main_loop {} 5 (- 1)
       (idle_world\<lparr>sigtimedwait_tape := [Sigtimedwait_ans 17 SIGCHLD 0],
          waitpid_tape :=
            [Waitpid_ans 5 (Exited 3) 0, Waitpid_ans 0 Continued 0,
             Waitpid_ans 6 (Exited 4) 0]\<rparr>) = Some (Exit 3, w'))"
proof -
  let ?wa = "idle_world\<lparr>waitpid_tape :=
          [Waitpid_ans 8 (Exited 1) 0, Waitpid_ans 9 (Signaled 15) 0,
           Waitpid_ans 0 Continued 0]\<rparr>"
  let ?wb = "idle_world\<lparr>sigtimedwait_tape := [Sigtimedwait_ans 17 SIGCHLD 0],
          waitpid_tape :=
            [Waitpid_ans 5 (Exited 3) 0, Waitpid_ans 0 Continued 0,
             Waitpid_ans 6 (Exited 4) 0]\<rparr>"
  let ?w1 = "idle_world\<lparr>trace := [Sys_sigtimedwait {}],
          waitpid_tape :=
            [Waitpid_ans 5 (Exited 3) 0, Waitpid_ans 0 Continued 0,
             Waitpid_ans 6 (Exited 4) 0]\<rparr>"
  let ?w2 = "idle_world\<lparr>trace := [Sys_sigtimedwait {}, Sys_waitpid, Sys_waitpid],
          waitpid_tape := [Waitpid_ans 6 (Exited 4) 0]\<rparr>"
  have tape: "waitpid_tape ?wa =
      [Waitpid_ans 8 (Exited 1) 0, Waitpid_ans 9 (Signaled 15) 0] @
      Waitpid_ans 0 Continued 0 # []"
    by simp
  have others: "list_all (other_descendant 5)
      [Waitpid_ans 8 (Exited 1) 0, Waitpid_ans 9 (Signaled 15) 0]"
    by (simp add: other_descendant_def)
  have last: "ends_pass (Waitpid_ans 0 Continued 0)"
    by (simp add: ends_pass_def)
  have fw: "wait_and_forward_signal {} 5 ?wb = Some (0, ?w1)"
    by (simp add: wait_and_forward_signal_def sigtimedwait_def emit_def PRINT_defs
        idle_world_def SIGCHLD_def)
  have rp: "reap_zombies 5 (- 1) ?w1 = Some (0, 3, ?w2)"
    by (simp add: reap_zombies.simps waitpid_def emit_def PRINT_defs idle_world_def)
  note inst = exitcode_kept_by_other_descendants
    [of ?wa "[Waitpid_ans 8 (Exited 1) 0, Waitpid_ans 9 (Signaled 15) 0]"
      "Waitpid_ans 0 Continued 0" "[]" 5 3 "{}" ?wb ?w1 "- 1" 3 ?w2]
  show ?thesis
    using inst tape others last fw rp by simp
qed


text \<open>
  The claim as stated fails: with main child \<open>5\<close>, a pass in which \<^verbatim>\<open>waitpid\<close> reports
  pid \<open>5\<close> exited with \<open>3\<close> and then nothing records \<open>3\<close>; the same pass with one more
  report of pid \<open>5\<close>, killed by signal \<open>9\<close>, after the first ends with \<open>137\<close>: the later
  reap has overwritten the code that was set.
\<close>

theorem exitcode_overwritten_counterexample:
  "reap_zombies 5 (- 1)
     (idle_world\<lparr>waitpid_tape := [Waitpid_ans 5 (Exited 3) 0, Waitpid_ans 0 Continued 0]\<rparr>)
   = Some (0, 3, idle_world\<lparr>trace := [Sys_waitpid, Sys_waitpid]\<rparr>)
   \<and> reap_zombies 5 (- 1)
     (idle_world\<lparr>waitpid_tape :=
        [Waitpid_ans 5 (Exited 3) 0, Waitpid_ans 5 (Signaled 9) 0, Waitpid_ans 0 Continued 0]\<rparr>)
   = Some (0, 137, idle_world\<lparr>trace := [Sys_waitpid, Sys_waitpid, Sys_waitpid]\<rparr>)"
  by (simp add: reap_zombies.simps waitpid_def emit_def PRINT_defs idle_world_def)

subsection \<open>The exit code of the supervisor\<close>

lemma record_exit_main_child:
  assumes "wp_ret a = p"
  shows "record_exit p e a =
    (if WIFEXITED (wp_status a) then WEXITSTATUS (wp_status a)
     else 128 + WTERMSIG (wp_status a))"
  using assms by (simp add: record_exit_def)

lemma main_loop_exit_recorded:
  assumes fw: "wait_and_forward_signal S p w = Some (0, w1)"
    and tape: "waitpid_tape w1 = pre @ a # post @ t # rest"
    and pre: "list_all (continues p) pre"
    and a: "continues p a" "wp_ret a = p"
    and post: "list_all (other_descendant p) post"
    and t: "ends_pass t"
    and set: "record_exit p e0 a \<noteq> - 1"
  shows "\<exists>w'. main_loop S p e w = Some (Exit (record_exit p e0 a), w')"
proof -
  have tape': "waitpid_tape w1 = (pre @ a # post) @ t # rest"
    using tape by simp
  have all: "list_all (continues p) (pre @ a # post)"
    using pre a(1) list_all_other_continues [OF post] by simp
  have code: "foldl (record_exit p) e (pre @ a # post) = record_exit p e0 a"
    using a(2) by (simp add: foldl_record_exit_other [OF post] record_exit_def)
  from reap_zombies_pass [OF tape' all ends_pass_not_continues [OF t], of e]
  obtain evs where
    "reap_zombies p e w1 = Some (if ends_pass t then 0 else 1,
       foldl (record_exit p) e (pre @ a # post),
       w1\<lparr>waitpid_tape := rest, trace := trace w1 @ Sys_waitpid # evs\<rparr>)"
    by blast
  then have "reap_zombies p e w1 = Some (0, record_exit p e0 a,
       w1\<lparr>waitpid_tape := rest, trace := trace w1 @ Sys_waitpid # evs\<rparr>)"
    unfolding code using t by simp
  from main_loop_done [OF fw this set] show ?thesis by blast
qed

text \<open>
  Claim C1, as amended. Take an iteration of the loop of \<^verbatim>\<open>main\<close> in which
  \<^verbatim>\<open>wait_and_forward_signal\<close> returns \<open>0\<close> and the pass of \<^verbatim>\<open>reap_zombies\<close> collects
  the main child (answer \<open>a\<close>), then only other descendants, and ends on an answer that is
  not an error. If the main child exited normally with code \<open>K\<close>, \<^verbatim>\<open>main\<close> returns \<open>K\<close>;
  if it was killed by signal \<open>N\<close>, \<^verbatim>\<open>main\<close> returns \<open>128 + N\<close>. The proviso is needed: a
  fatal error in that iteration makes \<^verbatim>\<open>main\<close> return \<open>1\<close> whatever the main child did.
\<close>

theorem exit_code_of_main_child:
  assumes fw: "wait_and_forward_signal S child_pid w = Some (0, w1)"
    and tape: "waitpid_tape w1 = pre @ a # post @ t # rest"
    and pre: "list_all (continues child_pid) pre"
    and a: "wp_ret a = child_pid" "wp_ret a \<noteq> - 1" "wp_ret a \<noteq> 0"
    and post: "list_all (other_descendant child_pid) post"
    and t: "ends_pass t"
  shows "(wp_status a = Exited K \<longrightarrow>
            (\<exists>w'. main_loop S child_pid e w = Some (Exit (int K), w')))
       \<and> (wp_status a = Signaled N \<longrightarrow>
            (\<exists>w'. main_loop S child_pid e w = Some (Exit (128 + int N), w')))"
proof (intro conjI impI)
  assume st: "wp_status a = Exited K"
  have c: "continues child_pid a" using a st by (simp add: continues_def)
  have r: "record_exit child_pid e a = int K" using a st by (simp add: record_exit_def)
  from main_loop_exit_recorded [OF fw tape pre c a(1) post t, of e e] r
  show "\<exists>w'. main_loop S child_pid e w = Some (Exit (int K), w')" by simp
next
  assume st: "wp_status a = Signaled N"
  have c: "continues child_pid a" using a st by (simp add: continues_def)
  have r: "record_exit child_pid e a = 128 + int N" using a st by (simp add: record_exit_def)
  from main_loop_exit_recorded [OF fw tape pre c a(1) post t, of e e] r
  show "\<exists>w'. main_loop S child_pid e w = Some (Exit (128 + int N), w')" by simp
qed

theorem exit_code_of_main_child_witness:
  "(\<exists>w'. main_loop {} 5 (- 1)
       (idle_world\<lparr>sigtimedwait_tape := [Sigtimedwait_ans 17 SIGCHLD 0],
          waitpid_tape :=
            [Waitpid_ans 9 (Exited 1) 0, Waitpid_ans 5 (Exited 7) 0,
             Waitpid_ans 8 (Signaled 15) 0, Waitpid_ans 0 Continued 0]\<rparr>)
       = Some (Exit 7, w'))
   \<and> (\<exists>w'. main_loop {} 5 (- 1)
       (idle_world\<lparr>sigtimedwait_tape := [Sigtimedwait_ans (- 1) 0 EAGAIN],
          waitpid_tape :=
            [Waitpid_ans 5 (Signaled 9) 0, Waitpid_ans (- 1) Continued ECHILD]\<rparr>)
       = Some (Exit 137, w'))"
proof -
  let ?wx = "idle_world\<lparr>sigtimedwait_tape := [Sigtimedwait_ans 17 SIGCHLD 0],
          waitpid_tape :=
            [Waitpid_ans 9 (Exited 1) 0, Waitpid_ans 5 (Exited 7) 0,
             Waitpid_ans 8 (Signaled 15) 0, Waitpid_ans 0 Continued 0]\<rparr>"
  let ?x1 = "idle_world\<lparr>trace := [Sys_sigtimedwait {}],
          waitpid_tape :=
            [Waitpid_ans 9 (Exited 1) 0, Waitpid_ans 5 (Exited 7) 0,
             Waitpid_ans 8 (Signaled 15) 0, Waitpid_ans 0 Continued 0]\<rparr>"
  let ?wy = "idle_world\<lparr>sigtimedwait_tape := [Sigtimedwait_ans (- 1) 0 EAGAIN],
          waitpid_tape :=
            [Waitpid_ans 5 (Signaled 9) 0, Waitpid_ans (- 1) Continued ECHILD]\<rparr>"
  let ?y1 = "idle_world\<lparr>trace := [Sys_sigtimedwait {}],
          waitpid_tape :=
            [Waitpid_ans 5 (Signaled 9) 0, Waitpid_ans (- 1) Continued ECHILD]\<rparr>"
  have fx: "wait_and_forward_signal {} 5 ?wx = Some (0, ?x1)"
    by (simp add: wait_and_forward_signal_def sigtimedwait_def emit_def PRINT_defs
        idle_world_def SIGCHLD_def)
  have tx: "waitpid_tape ?x1 = [Waitpid_ans 9 (Exited 1) 0] @ Waitpid_ans 5 (Exited 7) 0 #
      [Waitpid_ans 8 (Signaled 15) 0] @ Waitpid_ans 0 Continued 0 # []"
    by simp
  have px: "list_all (continues 5) [Waitpid_ans 9 (Exited 1) 0]"
    by (simp add: continues_def)
  have ox: "list_all (other_descendant 5) [Waitpid_ans 8 (Signaled 15) 0]"
    by (simp add: other_descendant_def)
  have ex: "ends_pass (Waitpid_ans 0 Continued 0)"
    by (simp add: ends_pass_def)
  have x: "\<exists>w'. main_loop {} 5 (- 1) ?wx = Some (Exit 7, w')"
    using exit_code_of_main_child [OF fx tx px _ _ _ ox ex, of 7 "- 1" 0] by simp
  have fy: "wait_and_forward_signal {} 5 ?wy = Some (0, ?y1)"
    by (simp add: wait_and_forward_signal_def sigtimedwait_def emit_def PRINT_defs
        idle_world_def EAGAIN_def)
  have ty: "waitpid_tape ?y1 = [] @ Waitpid_ans 5 (Signaled 9) 0 #
      [] @ Waitpid_ans (- 1) Continued ECHILD # []"
    by simp
  have ey: "ends_pass (Waitpid_ans (- 1) Continued ECHILD)"
    by (simp add: ends_pass_def)
  have y: "\<exists>w'. main_loop {} 5 (- 1) ?wy = Some (Exit 137, w')"
    using exit_code_of_main_child [OF fy ty _ _ _ _ _ ey, of 0 "- 1" 9] by simp
  from x y show ?thesis by blast
qed

text \<open>
  The claim as stated fails. In the first run the main child (pid \<open>5\<close>) exits with code
  \<open>7\<close> and is collected, and the next \<^verbatim>\<open>waitpid\<close> of the same pass fails with
  \<^verbatim>\<open>EINTR\<close>; in the second the main child has exited with code \<open>7\<close> and forwarding
  \<^verbatim>\<open>SIGTERM\<close> to it fails with \<^verbatim>\<open>EPERM\<close>. Both times \<^verbatim>\<open>main\<close> returns \<open>1\<close>, not \<open>7\<close>.
\<close>

theorem exit_code_of_main_child_counterexample:
  "map_option fst (main [''tini'', ''sleep'']
     (idle_world\<lparr>sigtimedwait_tape := [Sigtimedwait_ans 17 SIGCHLD 0],
        waitpid_tape := [Waitpid_ans 5 (Exited 7) 0, Waitpid_ans (- 1) Continued EINTR]\<rparr>))
   = Some (Exit 1)
   \<and> map_option fst (main [''tini'', ''sleep'']
     (idle_world\<lparr>sigtimedwait_tape := [Sigtimedwait_ans 15 15 0],
        kill_tape := [Kill_ans (- 1) 1],
        waitpid_tape := [Waitpid_ans 5 (Exited 7) 0, Waitpid_ans 0 Continued 0]\<rparr>))
   = Some (Exit 1)"
  by (simp add: main_def prepare_sigmask_def ignore_signals_def parse_args_def
      getopt_loop.simps getopt_def spawn_def main_loop.simps wait_and_forward_signal_def
      sigtimedwait_def kill_def reap_zombies.simps waitpid_def emit_def PRINT_defs
      idle_world_def signal_defs errno_defs Let_def)

subsection \<open>Forwarding a signal\<close>

text \<open>
  The requests \<^verbatim>\<open>kill(pid, sig)\<close> in a list of events, in order, and the events a
  function has appended to the trace.
\<close>

fun kills :: "event list \<Rightarrow> (int \<times> int) list" where
  "kills [] = []"
| "kills (Sys_kill pid sig # evs) = (pid, sig) # kills evs"
| "kills (ev # evs) = kills evs"

definition new_events :: "world \<Rightarrow> world \<Rightarrow> event list" where
  "new_events w w' = drop (length (trace w)) (trace w')"

lemma new_events_append [simp]:
  "new_events w (w'\<lparr>trace := trace w @ evs\<rparr>) = evs"
  by (simp add: new_events_def)

lemma kills_append [simp]: "kills (xs @ ys) = kills xs @ kills ys"
  by (induction xs rule: kills.induct) simp_all

lemma wait_timeout:
  assumes "sigtimedwait_tape w = sig # sigs" and "stw_ret sig = - 1"
    and "stw_errno sig = EAGAIN \<or> stw_errno sig = EINTR"
  shows "wait_and_forward_signal S p w =
    Some (0, w\<lparr>sigtimedwait_tape := sigs, trace := trace w @ [Sys_sigtimedwait S]\<rparr>)"
  using assms by (auto simp: wait_and_forward_signal_def sigtimedwait_def emit_def)

lemma wait_failed:
  assumes "sigtimedwait_tape w = sig # sigs" and "stw_ret sig = - 1"
    and "stw_errno sig \<noteq> EAGAIN" and "stw_errno sig \<noteq> EINTR"
  shows "wait_and_forward_signal S p w =
    Some (1, w\<lparr>sigtimedwait_tape := sigs,
      trace := trace w @
        [Sys_sigtimedwait S, Print FATAL ''Unexpected error in sigtimedwait: %s'']\<rparr>)"
  using assms by (simp add: wait_and_forward_signal_def sigtimedwait_def emit_def PRINT_defs)

lemma wait_sigchld:
  assumes "sigtimedwait_tape w = sig # sigs" and "stw_ret sig \<noteq> - 1"
    and "stw_signo sig = SIGCHLD"
  shows "wait_and_forward_signal S p w =
    Some (0, w\<lparr>sigtimedwait_tape := sigs,
      trace := trace w @ Sys_sigtimedwait S #
        (if verbosity w > 2 then [Print DEBUG ''Received SIGCHLD''] else [])\<rparr>)"
  using assms by (simp add: wait_and_forward_signal_def sigtimedwait_def emit_def PRINT_defs)

lemma wait_forward_no_answer:
  assumes "sigtimedwait_tape w = sig # sigs" and "stw_ret sig \<noteq> - 1"
    and "stw_signo sig \<noteq> SIGCHLD" and "kill_tape w = []"
  shows "wait_and_forward_signal S p w = None"
  using assms
  by (simp add: wait_and_forward_signal_def sigtimedwait_def kill_def emit_def PRINT_defs)

lemma wait_forward:
  assumes "sigtimedwait_tape w = sig # sigs" and "stw_ret sig \<noteq> - 1"
    and "stw_signo sig \<noteq> SIGCHLD" and "kill_tape w = k # ks"
  shows "wait_and_forward_signal S p w =
    Some (if kill_ret k \<noteq> 0 \<and> kill_errno k \<noteq> ESRCH then 1 else 0,
      w\<lparr>sigtimedwait_tape := sigs, kill_tape := ks,
        trace := trace w @ Sys_sigtimedwait S #
          (if verbosity w > 2 then [Print DEBUG ''Passing signal: %s''] else []) @
          Sys_kill p (stw_signo sig) #
          (if kill_ret k = 0 then []
           else if kill_errno k = ESRCH
             then (if verbosity w > 0
               then [Print WARN ''Child was dead when forwarding signal''] else [])
           else [Print FATAL ''Unexpected error when forwarding signal: %s''])\<rparr>)"
  using assms
  by (simp add: wait_and_forward_signal_def sigtimedwait_def kill_def emit_def PRINT_defs)

text \<open>
  Claim C3. When \<^verbatim>\<open>sigtimedwait\<close> reports a signal, \<^verbatim>\<open>wait_and_forward_signal\<close>
  consumes it. If it is \<^verbatim>\<open>SIGCHLD\<close> the function returns \<open>0\<close> and makes no
  \<^verbatim>\<open>kill\<close> request at all. For any other signal it makes exactly one \<^verbatim>\<open>kill\<close>
  request, addressed to the pid of the main child and carrying the very signal number
  reported, and none to any other pid.
\<close>

theorem signal_forwarding:
  assumes "sigtimedwait_tape w = sig # sigs" and "stw_ret sig \<noteq> - 1"
  shows "(stw_signo sig = SIGCHLD \<longrightarrow>
           (\<exists>w'. wait_and_forward_signal S child_pid w = Some (0, w') \<and>
              sigtimedwait_tape w' = sigs \<and> kill_tape w' = kill_tape w \<and>
              kills (new_events w w') = []))
       \<and> (stw_signo sig \<noteq> SIGCHLD \<and> kill_tape w \<noteq> [] \<longrightarrow>
           (\<exists>r w'. wait_and_forward_signal S child_pid w = Some (r, w') \<and>
              sigtimedwait_tape w' = sigs \<and>
              kills (new_events w w') = [(child_pid, stw_signo sig)]))"
proof (intro conjI impI)
  assume "stw_signo sig = SIGCHLD"
  from wait_sigchld [OF assms this, of S child_pid]
  show "\<exists>w'. wait_and_forward_signal S child_pid w = Some (0, w') \<and>
      sigtimedwait_tape w' = sigs \<and> kill_tape w' = kill_tape w \<and>
      kills (new_events w w') = []"
    by simp
next
  assume h: "stw_signo sig \<noteq> SIGCHLD \<and> kill_tape w \<noteq> []"
  then obtain k ks where k: "kill_tape w = k # ks"
    by (cases "kill_tape w") auto
  from h have other: "stw_signo sig \<noteq> SIGCHLD" by simp
  from wait_forward [OF assms other k, of S child_pid]
  show "\<exists>r w'. wait_and_forward_signal S child_pid w = Some (r, w') \<and>
      sigtimedwait_tape w' = sigs \<and>
      kills (new_events w w') = [(child_pid, stw_signo sig)]"
    by simp
qed

theorem signal_forwarding_witness:
  "(\<exists>w'. wait_and_forward_signal {} 5
       (idle_world\<lparr>sigtimedwait_tape := [Sigtimedwait_ans 17 17 0],
          kill_tape := [Kill_ans 0 0]\<rparr>) = Some (0, w') \<and>
      sigtimedwait_tape w' = [] \<and> kill_tape w' = [Kill_ans 0 0] \<and>
      kills (new_events
        (idle_world\<lparr>sigtimedwait_tape := [Sigtimedwait_ans 17 17 0],
           kill_tape := [Kill_ans 0 0]\<rparr>) w') = [])
   \<and> (\<exists>r w'. wait_and_forward_signal {} 5
       (idle_world\<lparr>sigtimedwait_tape := [Sigtimedwait_ans 15 15 0],
          kill_tape := [Kill_ans 0 0]\<rparr>) = Some (r, w') \<and>
      sigtimedwait_tape w' = [] \<and>
      kills (new_events
        (idle_world\<lparr>sigtimedwait_tape := [Sigtimedwait_ans 15 15 0],
           kill_tape := [Kill_ans 0 0]\<rparr>) w') = [(5, 15)])"
proof -
  let ?wc = "idle_world\<lparr>sigtimedwait_tape := [Sigtimedwait_ans 17 17 0],
          kill_tape := [Kill_ans 0 0]\<rparr>"
  let ?wt = "idle_world\<lparr>sigtimedwait_tape := [Sigtimedwait_ans 15 15 0],
          kill_tape := [Kill_ans 0 0]\<rparr>"
  have tc: "sigtimedwait_tape ?wc = Sigtimedwait_ans 17 17 0 # []" by simp
  have rc: "stw_ret (Sigtimedwait_ans 17 17 0) \<noteq> - 1" by simp
  have tt: "sigtimedwait_tape ?wt = Sigtimedwait_ans 15 15 0 # []" by simp
  have rt: "stw_ret (Sigtimedwait_ans 15 15 0) \<noteq> - 1" by simp
  show ?thesis
    using signal_forwarding [OF tc rc, of "{}" 5] signal_forwarding [OF tt rt, of "{}" 5]
    by (simp add: SIGCHLD_def)
qed

lemma main_loop_continue:
  assumes "wait_and_forward_signal S p w = Some (0, w1)"
  shows "main_loop S p e w =
    (case reap_zombies p e w1 of
       None \<Rightarrow> None
     | Some (r2, exitcode, w2) \<Rightarrow>
         if r2 \<noteq> 0 then Some (Exit 1, w2)
         else if exitcode \<noteq> - 1
           then Some (Exit exitcode, PRINT_TRACE ''Child has exited. Exiting'' w2)
         else main_loop S p exitcode w2)"
  by (subst main_loop.simps) (simp add: assms)

lemma main_loop_forward_fatal:
  assumes "wait_and_forward_signal S p w = Some (r, w1)" and "r \<noteq> 0"
  shows "main_loop S p e w = Some (Exit 1, w1)"
  by (subst main_loop.simps) (simp add: assms)

text \<open>
  Claim C4. With \<open>sig\<close> the answer of \<^verbatim>\<open>sigtimedwait\<close> and \<open>k\<close> the answer \<^verbatim>\<open>kill\<close>
  gives if it is called, \<^verbatim>\<open>wait_and_forward_signal\<close> returns non-zero exactly when
  \<^verbatim>\<open>sigtimedwait\<close> fails with an error other than \<^verbatim>\<open>EAGAIN\<close> and \<^verbatim>\<open>EINTR\<close>, or a
  signal other than \<^verbatim>\<open>SIGCHLD\<close> is forwarded and \<^verbatim>\<open>kill\<close> fails with an error other
  than \<^verbatim>\<open>ESRCH\<close>. On \<^verbatim>\<open>EAGAIN\<close> and \<^verbatim>\<open>EINTR\<close> it returns \<open>0\<close> having done nothing
  but the call of \<^verbatim>\<open>sigtimedwait\<close>. When \<^verbatim>\<open>kill\<close> fails with \<^verbatim>\<open>ESRCH\<close> it returns
  \<open>0\<close>, the only line it may print after the request is the warning (printed when
  \<^verbatim>\<open>verbosity\<close> is positive), and the loop of \<^verbatim>\<open>main\<close> goes on with
  \<^verbatim>\<open>reap_zombies\<close>.
\<close>

theorem forwarding_fatal_iff:
  assumes tape: "sigtimedwait_tape w = sig # sigs" and k: "kill_tape w = k # ks"
  shows "\<exists>r w'. wait_and_forward_signal S child_pid w = Some (r, w') \<and>
     (r \<noteq> 0 \<longleftrightarrow>
        (stw_ret sig = - 1 \<and> stw_errno sig \<noteq> EAGAIN \<and> stw_errno sig \<noteq> EINTR) \<or>
        (stw_ret sig \<noteq> - 1 \<and> stw_signo sig \<noteq> SIGCHLD \<and>
         kill_ret k \<noteq> 0 \<and> kill_errno k \<noteq> ESRCH)) \<and>
     (stw_ret sig = - 1 \<and> (stw_errno sig = EAGAIN \<or> stw_errno sig = EINTR) \<longrightarrow>
        r = 0 \<and>
        w' = w\<lparr>sigtimedwait_tape := sigs, trace := trace w @ [Sys_sigtimedwait S]\<rparr>) \<and>
     (stw_ret sig \<noteq> - 1 \<and> stw_signo sig \<noteq> SIGCHLD \<and>
      kill_ret k \<noteq> 0 \<and> kill_errno k = ESRCH \<longrightarrow>
        r = 0 \<and>
        new_events w w' =
          Sys_sigtimedwait S #
          (if verbosity w > 2 then [Print DEBUG ''Passing signal: %s''] else []) @
          Sys_kill child_pid (stw_signo sig) #
          (if verbosity w > 0
           then [Print WARN ''Child was dead when forwarding signal''] else []) \<and>
        main_loop S child_pid e w =
          (case reap_zombies child_pid e w' of
             None \<Rightarrow> None
           | Some (r2, exitcode, w2) \<Rightarrow>
               if r2 \<noteq> 0 then Some (Exit 1, w2)
               else if exitcode \<noteq> - 1
                 then Some (Exit exitcode, PRINT_TRACE ''Child has exited. Exiting'' w2)
               else main_loop S child_pid exitcode w2))"
proof -
  consider (quiet) "stw_ret sig = - 1" "stw_errno sig = EAGAIN \<or> stw_errno sig = EINTR"
    | (failed) "stw_ret sig = - 1" "stw_errno sig \<noteq> EAGAIN" "stw_errno sig \<noteq> EINTR"
    | (sigchld) "stw_ret sig \<noteq> - 1" "stw_signo sig = SIGCHLD"
    | (forward) "stw_ret sig \<noteq> - 1" "stw_signo sig \<noteq> SIGCHLD"
    by blast
  then show ?thesis
  proof cases
    case quiet
    from wait_timeout [OF tape quiet, of S child_pid] quiet show ?thesis by auto
  next
    case failed
    from wait_failed [OF tape failed, of S child_pid] failed show ?thesis by simp
  next
    case sigchld
    from wait_sigchld [OF tape sigchld, of S child_pid] sigchld show ?thesis by simp
  next
    case forward
    note res = wait_forward [OF tape forward k, of S child_pid]
    show ?thesis
    proof (cases "kill_ret k \<noteq> 0 \<and> kill_errno k = ESRCH")
      case True
      with res have ok: "wait_and_forward_signal S child_pid w =
        Some (0, w\<lparr>sigtimedwait_tape := sigs, kill_tape := ks,
          trace := trace w @ Sys_sigtimedwait S #
            (if verbosity w > 2 then [Print DEBUG ''Passing signal: %s''] else []) @
            Sys_kill child_pid (stw_signo sig) #
            (if verbosity w > 0
             then [Print WARN ''Child was dead when forwarding signal''] else [])\<rparr>)"
        by simp
      show ?thesis
        using forward True main_loop_continue [OF ok, of e]
        by (simp add: ok)
    next
      case False
      with res forward show ?thesis by auto
    qed
  qed
qed

theorem forwarding_fatal_iff_witness:
  "(\<exists>r w'. wait_and_forward_signal {} 5
       (idle_world\<lparr>verbosity := 1, sigtimedwait_tape := [Sigtimedwait_ans 15 15 0],
          kill_tape := [Kill_ans (- 1) ESRCH]\<rparr>) = Some (r, w') \<and> r = 0 \<and>
       new_events
         (idle_world\<lparr>verbosity := 1, sigtimedwait_tape := [Sigtimedwait_ans 15 15 0],
            kill_tape := [Kill_ans (- 1) ESRCH]\<rparr>) w' =
         [Sys_sigtimedwait {}, Sys_kill 5 15,
          Print WARN ''Child was dead when forwarding signal''])
   \<and> (\<exists>r w'. wait_and_forward_signal {} 5
       (idle_world\<lparr>sigtimedwait_tape := [Sigtimedwait_ans 15 15 0],
          kill_tape := [Kill_ans (- 1) 1]\<rparr>) = Some (r, w') \<and> r \<noteq> 0)
   \<and> (\<exists>r w'. wait_and_forward_signal {} 5
       (idle_world\<lparr>sigtimedwait_tape := [Sigtimedwait_ans (- 1) 0 EAGAIN],
          kill_tape := [Kill_ans 0 0]\<rparr>) = Some (r, w') \<and> r = 0 \<and>
       w' = idle_world\<lparr>sigtimedwait_tape := [], kill_tape := [Kill_ans 0 0],
              trace := [Sys_sigtimedwait {}]\<rparr>)"
proof -
  let ?wa = "idle_world\<lparr>verbosity := 1, sigtimedwait_tape := [Sigtimedwait_ans 15 15 0],
          kill_tape := [Kill_ans (- 1) ESRCH]\<rparr>"
  let ?wb = "idle_world\<lparr>sigtimedwait_tape := [Sigtimedwait_ans 15 15 0],
          kill_tape := [Kill_ans (- 1) 1]\<rparr>"
  let ?wc = "idle_world\<lparr>sigtimedwait_tape := [Sigtimedwait_ans (- 1) 0 EAGAIN],
          kill_tape := [Kill_ans 0 0]\<rparr>"
  have a: "sigtimedwait_tape ?wa = Sigtimedwait_ans 15 15 0 # []"
    "kill_tape ?wa = Kill_ans (- 1) ESRCH # []" by simp_all
  have b: "sigtimedwait_tape ?wb = Sigtimedwait_ans 15 15 0 # []"
    "kill_tape ?wb = Kill_ans (- 1) 1 # []" by simp_all
  have c: "sigtimedwait_tape ?wc = Sigtimedwait_ans (- 1) 0 EAGAIN # []"
    "kill_tape ?wc = Kill_ans 0 0 # []" by simp_all
  have va: "verbosity ?wa = 1" by simp
  have tc: "trace ?wc = []" by (simp add: idle_world_def)
  have "\<exists>r w'. wait_and_forward_signal {} 5 ?wa = Some (r, w') \<and> r = 0 \<and>
       new_events ?wa w' = [Sys_sigtimedwait {}, Sys_kill 5 15,
          Print WARN ''Child was dead when forwarding signal'']"
    using forwarding_fatal_iff [OF a, of "{}" 5 "- 1"]
    by (auto simp: va SIGCHLD_def ESRCH_def)
  moreover
  have "\<exists>r w'. wait_and_forward_signal {} 5 ?wb = Some (r, w') \<and> r \<noteq> 0"
    using forwarding_fatal_iff [OF b, of "{}" 5 "- 1"]
    by (auto simp: SIGCHLD_def ESRCH_def)
  moreover
  have "\<exists>r w'. wait_and_forward_signal {} 5 ?wc = Some (r, w') \<and> r = 0 \<and>
       w' = idle_world\<lparr>sigtimedwait_tape := [], kill_tape := [Kill_ans 0 0],
              trace := [Sys_sigtimedwait {}]\<rparr>"
    using forwarding_fatal_iff [OF c, of "{}" 5 "- 1"]
    by (auto simp: tc)
  ultimately show ?thesis by blast
qed

subsection \<open>The supervision loop\<close>

text \<open>
  The order of the calls in the loop, read off the trace. An iteration starts with
  \<^verbatim>\<open>sigtimedwait\<close> (phase \<open>Waited\<close>), may forward with one \<^verbatim>\<open>kill\<close> (phase
  \<open>Killed\<close>), and then reaps with one or more calls of \<^verbatim>\<open>waitpid\<close> (phase
  \<open>Reaping\<close>). \<open>phase_step\<close> refuses a call that is out of this order: a
  \<^verbatim>\<open>waitpid\<close> before the first \<^verbatim>\<open>sigtimedwait\<close>, a \<^verbatim>\<open>sigtimedwait\<close> or a \<^verbatim>\<open>kill\<close>
  that does not follow as described, or any other call. Printed lines do not change the
  phase.
\<close>

datatype phase = Start | Waited | Killed | Reaping

fun phase_step :: "phase \<Rightarrow> event \<Rightarrow> phase option" where
  "phase_step ph (Sys_sigtimedwait S) =
     (if ph = Start \<or> ph = Reaping then Some Waited else None)"
| "phase_step ph (Sys_kill pid sig) = (if ph = Waited then Some Killed else None)"
| "phase_step ph Sys_waitpid = (if ph = Start then None else Some Reaping)"
| "phase_step ph (Print l m) = Some ph"
| "phase_step ph ev = None"

fun phases :: "phase \<Rightarrow> event list \<Rightarrow> phase option" where
  "phases ph [] = Some ph"
| "phases ph (ev # evs) =
     (case phase_step ph ev of None \<Rightarrow> None | Some ph' \<Rightarrow> phases ph' evs)"

lemma phases_append:
  "phases ph (xs @ ys) = (case phases ph xs of None \<Rightarrow> None | Some ph' \<Rightarrow> phases ph' ys)"
  by (induction xs arbitrary: ph) (simp_all split: option.splits)

lemma phases_only_reaping:
  "only_reaping evs \<Longrightarrow> phases Reaping evs = Some Reaping"
proof (induction evs)
  case Nil
  show ?case by simp
next
  case (Cons ev evs)
  then show ?case by (cases ev) (simp_all add: only_reaping_def)
qed

lemma phases_reap_pass:
  assumes "only_reaping evs" and "ph \<noteq> Start"
  shows "phases ph (Sys_waitpid # evs) = Some Reaping"
  using assms by (simp add: phases_only_reaping)

lemma wait_and_forward_signal_phases:
  assumes res: "wait_and_forward_signal S p w = Some (r, w1)"
    and ph: "ph = Start \<or> ph = Reaping"
  shows "\<exists>evs ph'. trace w1 = trace w @ evs \<and> phases ph evs = Some ph' \<and>
           (ph' = Waited \<or> ph' = Killed)"
proof -
  from res obtain sig sigs where tape: "sigtimedwait_tape w = sig # sigs"
    by (cases "sigtimedwait_tape w")
       (auto simp: wait_and_forward_signal_def sigtimedwait_def)
  consider (quiet) "stw_ret sig = - 1" "stw_errno sig = EAGAIN \<or> stw_errno sig = EINTR"
    | (failed) "stw_ret sig = - 1" "stw_errno sig \<noteq> EAGAIN" "stw_errno sig \<noteq> EINTR"
    | (sigchld) "stw_ret sig \<noteq> - 1" "stw_signo sig = SIGCHLD"
    | (forward) "stw_ret sig \<noteq> - 1" "stw_signo sig \<noteq> SIGCHLD"
    by blast
  then show ?thesis
  proof cases
    case quiet
    from wait_timeout [OF tape quiet, of S p] res
    have "trace w1 = trace w @ [Sys_sigtimedwait S]" by auto
    with ph show ?thesis by auto
  next
    case failed
    from wait_failed [OF tape failed, of S p] res
    have "trace w1 = trace w @
      [Sys_sigtimedwait S, Print FATAL ''Unexpected error in sigtimedwait: %s'']" by auto
    with ph show ?thesis by auto
  next
    case sigchld
    from wait_sigchld [OF tape sigchld, of S p] res
    have "trace w1 = trace w @ Sys_sigtimedwait S #
        (if verbosity w > 2 then [Print DEBUG ''Received SIGCHLD''] else [])" by auto
    with ph show ?thesis by auto
  next
    case forward
    show ?thesis
    proof (cases "kill_tape w")
      case Nil
      from wait_forward_no_answer [OF tape forward Nil, of S p] res show ?thesis by simp
    next
      case (Cons k ks)
      from wait_forward [OF tape forward Cons, of S p] res
      have "trace w1 = trace w @ Sys_sigtimedwait S #
          (if verbosity w > 2 then [Print DEBUG ''Passing signal: %s''] else []) @
          Sys_kill p (stw_signo sig) #
          (if kill_ret k = 0 then []
           else if kill_errno k = ESRCH
             then (if verbosity w > 0
               then [Print WARN ''Child was dead when forwarding signal''] else [])
           else [Print FATAL ''Unexpected error when forwarding signal: %s''])"
        by auto
      with ph show ?thesis by auto
    qed
  qed
qed

lemma reap_zombies_phases:
  assumes res: "reap_zombies p e w = Some (r, e', w')" and ph: "ph \<noteq> Start"
  shows "\<exists>evs. trace w' = trace w @ evs \<and> phases ph evs = Some Reaping"
proof -
  from reap_zombies_frame [OF res] obtain evs where
    w': "w' = w\<lparr>waitpid_tape := waitpid_tape w', trace := trace w @ Sys_waitpid # evs\<rparr>"
    and evs: "only_reaping evs"
    by blast
  from w' have "trace w' =
      trace (w\<lparr>waitpid_tape := waitpid_tape w', trace := trace w @ Sys_waitpid # evs\<rparr>)"
    by simp
  then have "trace w' = trace w @ Sys_waitpid # evs" by simp
  with phases_reap_pass [OF evs ph] show ?thesis by blast
qed

lemma PRINT_TRACE_trace:
  "trace (PRINT_TRACE m w) = trace w @ (if verbosity w > 3 then [Print TRACE m] else [])"
  by (simp add: PRINT_TRACE_def emit_def)

lemma main_loop_phases:
  assumes "main_loop S p e w = Some (out, w')" and "ph = Start \<or> ph = Reaping"
  shows "\<exists>evs ph' c. trace w' = trace w @ evs \<and> phases ph evs = Some ph' \<and>
           out = Exit c \<and> c \<noteq> - 1"
  using assms
proof (induction "length (sigtimedwait_tape w)" arbitrary: w e ph rule: less_induct)
  case less
  note run = less.prems(1) and ph = less.prems(2)
  from run obtain r1 w1 where fw: "wait_and_forward_signal S p w = Some (r1, w1)"
    by (subst (asm) main_loop.simps) (auto split: option.splits)
  from wait_and_forward_signal_phases [OF fw ph] obtain evs1 ph1 where
    t1: "trace w1 = trace w @ evs1" and p1: "phases ph evs1 = Some ph1"
    and ph1: "ph1 = Waited \<or> ph1 = Killed"
    by blast
  show ?case
  proof (cases "r1 = 0")
    case False
    from main_loop_forward_fatal [OF fw False, of e] run
    have "out = Exit 1" "w' = w1" by simp_all
    with t1 p1 show ?thesis by auto
  next
    case True
    with fw have fw0: "wait_and_forward_signal S p w = Some (0, w1)" by simp
    note step = main_loop_continue [OF fw0, of e]
    from run step obtain r2 e2 w2 where rp: "reap_zombies p e w1 = Some (r2, e2, w2)"
      by (auto split: option.splits)
    from ph1 have "ph1 \<noteq> Start" by auto
    from reap_zombies_phases [OF rp this] obtain evs2 where
      t2: "trace w2 = trace w1 @ evs2" and p2: "phases ph1 evs2 = Some Reaping"
      by blast
    have p12: "phases ph (evs1 @ evs2) = Some Reaping"
      by (simp add: phases_append p1 p2)
    have t12: "trace w2 = trace w @ evs1 @ evs2"
      using t1 t2 by simp
    consider (fatal) "r2 \<noteq> 0" | (code_set) "r2 = 0" "e2 \<noteq> - 1" | (again) "r2 = 0" "e2 = - 1"
      by blast
    then show ?thesis
    proof cases
      case fatal
      with run step rp have "out = Exit 1" "w' = w2" by simp_all
      with t12 p12 show ?thesis by auto
    next
      case code_set
      with run step rp have o: "out = Exit e2"
        and w': "w' = PRINT_TRACE ''Child has exited. Exiting'' w2"
        by simp_all
      let ?pr = "if verbosity w2 > 3 then [Print TRACE ''Child has exited. Exiting''] else []"
      have "trace w' = trace w @ (evs1 @ evs2) @ ?pr"
        using w' t12 by (simp add: PRINT_TRACE_trace)
      moreover have "phases ph ((evs1 @ evs2) @ ?pr) = Some Reaping"
        by (subst phases_append) (simp add: p12)
      ultimately show ?thesis using o code_set(2) by blast
    next
      case again
      with run step rp have next_run: "main_loop S p e2 w2 = Some (out, w')" by simp
      have shorter: "length (sigtimedwait_tape w2) < length (sigtimedwait_tape w)"
        using wait_and_forward_signal_shorter [OF fw] reap_zombies_sigtimedwait_tape [OF rp]
        by simp
      from less.hyps [OF shorter next_run, of Reaping] obtain evs3 ph3 c where
        t3: "trace w' = trace w2 @ evs3" and p3: "phases Reaping evs3 = Some ph3"
        and o: "out = Exit c" "c \<noteq> - 1"
        by blast
      have "trace w' = trace w @ (evs1 @ evs2) @ evs3"
        using t3 t12 by simp
      moreover have "phases ph ((evs1 @ evs2) @ evs3) = Some ph3"
        by (subst phases_append) (simp add: p12 p3)
      ultimately show ?thesis using o by blast
    qed
  qed
qed

text \<open>
  Claim C9. In every run of the loop that ends, the calls are in order: each iteration
  first waits (and forwards), then reaps, and reaping never comes before the wait of its
  iteration; the run ends with \<^verbatim>\<open>main\<close> returning a code other than the unset value
  \<open>-1\<close>. An iteration ends the loop exactly in these cases: \<^verbatim>\<open>wait_and_forward_signal\<close>
  returns non-zero (exit code \<open>1\<close>, \<^verbatim>\<open>reap_zombies\<close> is not called), or
  \<^verbatim>\<open>reap_zombies\<close> returns non-zero (exit code \<open>1\<close>), or it returns \<open>0\<close> with the exit
  code set (that code is the exit code of the supervisor). Otherwise the next iteration
  runs, with the exit code still unset.
\<close>

theorem supervision_loop:
  "(main_loop S child_pid e w = Some (out, w') \<longrightarrow>
      (\<exists>ph c. phases Start (new_events w w') = Some ph \<and> out = Exit c \<and> c \<noteq> - 1))
   \<and> (wait_and_forward_signal S child_pid v = Some (r1, v1) \<and> r1 \<noteq> 0 \<longrightarrow>
      main_loop S child_pid c v = Some (Exit 1, v1))
   \<and> (wait_and_forward_signal S child_pid v = Some (0, v1) \<and>
      reap_zombies child_pid c v1 = Some (r2, c2, v2) \<longrightarrow>
      main_loop S child_pid c v =
        (if r2 \<noteq> 0 then Some (Exit 1, v2)
         else if c2 \<noteq> - 1
           then Some (Exit c2, PRINT_TRACE ''Child has exited. Exiting'' v2)
         else main_loop S child_pid c2 v2))"
proof (intro conjI impI)
  assume run: "main_loop S child_pid e w = Some (out, w')"
  from main_loop_phases [OF run, of Start] obtain evs ph c where
    "trace w' = trace w @ evs" and "phases Start evs = Some ph" and "out = Exit c" "c \<noteq> - 1"
    by blast
  then show "\<exists>ph c. phases Start (new_events w w') = Some ph \<and> out = Exit c \<and> c \<noteq> - 1"
    by (simp add: new_events_def)
next
  assume "wait_and_forward_signal S child_pid v = Some (r1, v1) \<and> r1 \<noteq> 0"
  then show "main_loop S child_pid c v = Some (Exit 1, v1)"
    using main_loop_forward_fatal by blast
next
  assume "wait_and_forward_signal S child_pid v = Some (0, v1) \<and>
      reap_zombies child_pid c v1 = Some (r2, c2, v2)"
  then show "main_loop S child_pid c v =
        (if r2 \<noteq> 0 then Some (Exit 1, v2)
         else if c2 \<noteq> - 1
           then Some (Exit c2, PRINT_TRACE ''Child has exited. Exiting'' v2)
         else main_loop S child_pid c2 v2)"
    by (simp add: main_loop_continue)
qed

theorem supervision_loop_witness:
  "(\<exists>ph. main_loop {} 5 (- 1)
       (idle_world\<lparr>sigtimedwait_tape :=
          [Sigtimedwait_ans (- 1) 0 EAGAIN, Sigtimedwait_ans 15 15 0,
           Sigtimedwait_ans 17 17 0],
        kill_tape := [Kill_ans 0 0],
        waitpid_tape :=
          [Waitpid_ans 0 Continued 0, Waitpid_ans 0 Continued 0,
           Waitpid_ans 5 (Exited 0) 0, Waitpid_ans (- 1) Continued ECHILD]\<rparr>)
     = Some (Exit 0,
         idle_world\<lparr>trace :=
           [Sys_sigtimedwait {}, Sys_waitpid, Sys_sigtimedwait {}, Sys_kill 5 15,
            Sys_waitpid, Sys_sigtimedwait {}, Sys_waitpid, Sys_waitpid]\<rparr>)
     \<and> phases Start
         [Sys_sigtimedwait {}, Sys_waitpid, Sys_sigtimedwait {}, Sys_kill 5 15,
          Sys_waitpid, Sys_sigtimedwait {}, Sys_waitpid, Sys_waitpid] = Some ph)
   \<and> main_loop {} 5 (- 1) (idle_world\<lparr>sigtimedwait_tape := [Sigtimedwait_ans (- 1) 0 22]\<rparr>)
     = Some (Exit 1,
         idle_world\<lparr>trace :=
           [Sys_sigtimedwait {}, Print FATAL ''Unexpected error in sigtimedwait: %s'']\<rparr>)
   \<and> main_loop {} 5 (- 1)
       (idle_world\<lparr>sigtimedwait_tape := [Sigtimedwait_ans 17 17 0],
          waitpid_tape := [Waitpid_ans 5 (Stopped 19) 0]\<rparr>)
     = Some (Exit 1,
         idle_world\<lparr>trace :=
           [Sys_sigtimedwait {}, Sys_waitpid,
            Print FATAL ''Main child exited for unknown reason!'']\<rparr>)"
proof -
  let ?w = "idle_world\<lparr>sigtimedwait_tape :=
          [Sigtimedwait_ans (- 1) 0 EAGAIN, Sigtimedwait_ans 15 15 0,
           Sigtimedwait_ans 17 17 0],
        kill_tape := [Kill_ans 0 0],
        waitpid_tape :=
          [Waitpid_ans 0 Continued 0, Waitpid_ans 0 Continued 0,
           Waitpid_ans 5 (Exited 0) 0, Waitpid_ans (- 1) Continued ECHILD]\<rparr>"
  let ?w' = "idle_world\<lparr>trace :=
           [Sys_sigtimedwait {}, Sys_waitpid, Sys_sigtimedwait {}, Sys_kill 5 15,
            Sys_waitpid, Sys_sigtimedwait {}, Sys_waitpid, Sys_waitpid]\<rparr>"
  let ?f = "idle_world\<lparr>sigtimedwait_tape := [Sigtimedwait_ans (- 1) 0 22]\<rparr>"
  let ?f1 = "idle_world\<lparr>trace :=
           [Sys_sigtimedwait {}, Print FATAL ''Unexpected error in sigtimedwait: %s'']\<rparr>"
  let ?r = "idle_world\<lparr>sigtimedwait_tape := [Sigtimedwait_ans 17 17 0],
          waitpid_tape := [Waitpid_ans 5 (Stopped 19) 0]\<rparr>"
  let ?r1 = "idle_world\<lparr>trace := [Sys_sigtimedwait {}],
          waitpid_tape := [Waitpid_ans 5 (Stopped 19) 0]\<rparr>"
  let ?r2 = "idle_world\<lparr>trace :=
           [Sys_sigtimedwait {}, Sys_waitpid,
            Print FATAL ''Main child exited for unknown reason!'']\<rparr>"
  note eval = main_loop.simps wait_and_forward_signal_def sigtimedwait_def kill_def
    reap_zombies.simps waitpid_def emit_def PRINT_defs idle_world_def signal_defs errno_defs
  have run: "main_loop {} 5 (- 1) ?w = Some (Exit 0, ?w')"
    by (simp add: eval)
  have tr: "new_events ?w ?w' =
      [Sys_sigtimedwait {}, Sys_waitpid, Sys_sigtimedwait {}, Sys_kill 5 15,
       Sys_waitpid, Sys_sigtimedwait {}, Sys_waitpid, Sys_waitpid]"
    by (simp add: new_events_def idle_world_def)
  have fw_fatal: "wait_and_forward_signal {} 5 ?f = Some (1, ?f1)"
    by (simp add: eval)
  have fw_ok: "wait_and_forward_signal {} 5 ?r = Some (0, ?r1)"
    by (simp add: eval)
  have rp_fatal: "reap_zombies 5 (- 1) ?r1 = Some (1, - 1, ?r2)"
    by (simp add: eval)
  note run_inst = supervision_loop
    [where S = "{}" and child_pid = 5 and e = "- 1" and w = ?w and out = "Exit 0"
       and w' = ?w' and v = ?f and ?r1.0 = 1 and ?v1.0 = ?f1 and c = "- 1"]
  note iter_inst = supervision_loop
    [where S = "{}" and child_pid = 5 and v = ?r and ?r1.0 = 0 and ?v1.0 = ?r1
       and c = "- 1" and ?r2.0 = 1 and ?c2.0 = "- 1" and ?v2.0 = ?r2]
  show ?thesis
    using run_inst iter_inst run tr fw_fatal fw_ok rp_fatal by simp
qed

subsection \<open>Setting up the signal mask\<close>

text \<open>
  All the mask operations of \<^verbatim>\<open>prepare_sigmask\<close> succeed: \<^verbatim>\<open>sigfillset\<close>, the seven
  \<^verbatim>\<open>sigdelset\<close> and \<^verbatim>\<open>sigprocmask\<close> return \<open>0\<close>. \<open>parent_mask\<close> is every signal of the
  full set but the seven error signals, and \<open>mask_setup_events\<close> the calls of a
  successful setup, the last of which installs the parent mask.
\<close>

definition mask_setup_ok :: "world \<Rightarrow> bool" where
  "mask_setup_ok w \<longleftrightarrow>
     sigfillset_ret w = 0 \<and> list_all (\<lambda>s. sigdelset_ret w s = 0) ignore_signals \<and>
     sigprocmask_ret w = 0"

definition parent_mask :: "world \<Rightarrow> int set" where
  "parent_mask w =
     full_sigset w - {SIGFPE, SIGILL, SIGSEGV, SIGBUS, SIGABRT, SIGTRAP, SIGSYS}"

definition mask_setup_events :: "world \<Rightarrow> event list" where
  "mask_setup_events w =
     Sys_sigfillset # map Sys_sigdelset ignore_signals @ [Sys_sigprocmask (parent_mask w)]"

definition only_mask_setup :: "event list \<Rightarrow> bool" where
  "only_mask_setup evs =
     list_all (\<lambda>e. case e of Sys_sigfillset \<Rightarrow> True | Sys_sigdelset s \<Rightarrow> True
       | Sys_sigprocmask S \<Rightarrow> True | Print FATAL m \<Rightarrow> True | _ \<Rightarrow> False) evs"

lemma sigdelset_loop_ok:
  assumes "list_all (\<lambda>s. sigdelset_ret w s = 0) ss"
  shows "sigdelset_loop ss P w =
    (Inr (P - set ss), w\<lparr>trace := trace w @ map Sys_sigdelset ss\<rparr>)"
  using assms
proof (induction ss arbitrary: P w)
  case Nil
  show ?case by simp
next
  case (Cons s ss)
  let ?w1 = "emit (Sys_sigdelset s) w"
  from Cons.prems have s: "sigdelset_ret w s = 0"
    and ss: "list_all (\<lambda>s. sigdelset_ret ?w1 s = 0) ss"
    by (simp_all add: emit_def)
  have "sigdelset_loop (s # ss) P w = sigdelset_loop ss (P - {s}) ?w1"
    using s by (simp add: emit_def)
  also have "\<dots> = (Inr (P - {s} - set ss), ?w1\<lparr>trace := trace ?w1 @ map Sys_sigdelset ss\<rparr>)"
    by (rule Cons.IH [OF ss])
  also have "P - {s} - set ss = P - set (s # ss)" by auto
  finally show ?case by (simp add: emit_def)
qed

lemma sigdelset_loop_failed:
  assumes "\<not> list_all (\<lambda>s. sigdelset_ret w s = 0) ss"
  shows "\<exists>evs. sigdelset_loop ss P w = (Inl 1, w\<lparr>trace := trace w @ evs\<rparr>) \<and>
           only_mask_setup evs"
  using assms
proof (induction ss arbitrary: P w)
  case Nil
  then show ?case by simp
next
  case (Cons s ss)
  let ?w1 = "emit (Sys_sigdelset s) w"
  show ?case
  proof (cases "sigdelset_ret w s = 0")
    case False
    then show ?thesis
      by (intro exI [of _ "[Sys_sigdelset s, Print FATAL ''sigdelset failed: %i'']"])
         (simp add: emit_def PRINT_FATAL_def only_mask_setup_def)
  next
    case True
    with Cons.prems have "\<not> list_all (\<lambda>s. sigdelset_ret ?w1 s = 0) ss"
      by (simp add: emit_def)
    from Cons.IH [OF this, of "P - {s}"] obtain evs where
      rest: "sigdelset_loop ss (P - {s}) ?w1 = (Inl 1, ?w1\<lparr>trace := trace ?w1 @ evs\<rparr>)"
      and evs: "only_mask_setup evs"
      by blast
    have "sigdelset_loop (s # ss) P w = sigdelset_loop ss (P - {s}) ?w1"
      using True by (simp add: emit_def)
    with rest evs show ?thesis
      by (intro exI [of _ "Sys_sigdelset s # evs"])
         (simp add: emit_def only_mask_setup_def)
  qed
qed

lemma set_ignore_signals:
  "set ignore_signals = {SIGFPE, SIGILL, SIGSEGV, SIGBUS, SIGABRT, SIGTRAP, SIGSYS}"
  by (simp add: ignore_signals_def)

lemma prepare_sigmask_ok:
  assumes "mask_setup_ok w"
  shows "prepare_sigmask w =
    (Inr (parent_mask w, sigmask w),
     w\<lparr>sigmask := parent_mask w, trace := trace w @ mask_setup_events w\<rparr>)"
proof -
  let ?w1 = "emit Sys_sigfillset w"
  from assms have fill: "sigfillset_ret ?w1 = 0"
    and del: "list_all (\<lambda>s. sigdelset_ret ?w1 s = 0) ignore_signals"
    and mask: "sigprocmask_ret w = 0"
    by (simp_all add: mask_setup_ok_def emit_def)
  have loop: "sigdelset_loop ignore_signals (full_sigset ?w1) ?w1 =
      (Inr (parent_mask w), ?w1\<lparr>trace := trace ?w1 @ map Sys_sigdelset ignore_signals\<rparr>)"
    unfolding sigdelset_loop_ok [OF del]
    by (simp add: parent_mask_def set_ignore_signals emit_def)
  show ?thesis
    unfolding prepare_sigmask_def Let_def
    using fill mask
    by (simp add: loop) (simp add: emit_def mask_setup_events_def)
qed

lemma prepare_sigmask_failed:
  assumes "\<not> mask_setup_ok w"
  shows "\<exists>evs. prepare_sigmask w = (Inl 1, w\<lparr>trace := trace w @ evs\<rparr>) \<and>
           only_mask_setup evs"
proof -
  let ?w1 = "emit Sys_sigfillset w"
  consider (fill) "sigfillset_ret w \<noteq> 0"
    | (del) "sigfillset_ret w = 0" "\<not> list_all (\<lambda>s. sigdelset_ret w s = 0) ignore_signals"
    | (mask) "sigfillset_ret w = 0" "list_all (\<lambda>s. sigdelset_ret w s = 0) ignore_signals"
        "sigprocmask_ret w \<noteq> 0"
    using assms by (auto simp: mask_setup_ok_def)
  then show ?thesis
  proof cases
    case fill
    then show ?thesis
      by (intro exI [of _ "[Sys_sigfillset, Print FATAL ''sigfillset failed: %s'']"])
         (simp add: prepare_sigmask_def emit_def PRINT_FATAL_def only_mask_setup_def)
  next
    case del
    then have "\<not> list_all (\<lambda>s. sigdelset_ret ?w1 s = 0) ignore_signals"
      by (simp add: emit_def)
    from sigdelset_loop_failed [OF this, of "full_sigset ?w1"] obtain evs where
      loop: "sigdelset_loop ignore_signals (full_sigset ?w1) ?w1 =
        (Inl 1, ?w1\<lparr>trace := trace ?w1 @ evs\<rparr>)"
      and evs: "only_mask_setup evs"
      by blast
    have fill: "sigfillset_ret ?w1 = 0" using del(1) by (simp add: emit_def)
    show ?thesis
      unfolding prepare_sigmask_def Let_def
      using fill evs
      by (intro exI [of _ "Sys_sigfillset # evs"])
         (simp add: loop, simp add: emit_def only_mask_setup_def)
  next
    case mask
    then have del: "list_all (\<lambda>s. sigdelset_ret ?w1 s = 0) ignore_signals"
      and fill: "sigfillset_ret ?w1 = 0"
      by (simp_all add: emit_def)
    have loop: "sigdelset_loop ignore_signals (full_sigset ?w1) ?w1 =
      (Inr (parent_mask w), ?w1\<lparr>trace := trace ?w1 @ map Sys_sigdelset ignore_signals\<rparr>)"
      unfolding sigdelset_loop_ok [OF del]
      by (simp add: parent_mask_def set_ignore_signals emit_def)
    show ?thesis
      unfolding prepare_sigmask_def Let_def
      using fill mask(3)
      by (intro exI [of _ "Sys_sigfillset # map Sys_sigdelset ignore_signals @
            [Sys_sigprocmask (parent_mask w), Print FATAL ''sigprocmask failed: %s'']"])
         (simp add: loop, simp add: emit_def PRINT_FATAL_def only_mask_setup_def
            ignore_signals_def)
  qed
qed

lemma only_mask_setup_excludes:
  assumes "only_mask_setup evs"
  shows "Sys_fork \<notin> set evs" and "Sys_getopt \<notin> set evs" and "Usage f \<notin> set evs"
  using assms by (auto simp: only_mask_setup_def list_all_iff)

lemma main_mask_failed:
  assumes "prepare_sigmask w = (Inl r, w1)"
  shows "main argv w = Some (Exit 1, w1)"
  by (simp add: main_def assms)

text \<open>
  Claim C2. When the mask operations succeed, \<^verbatim>\<open>prepare_sigmask\<close> returns \<open>0\<close>, the
  parent mask it hands back is the full set without exactly \<^verbatim>\<open>SIGFPE\<close>, \<^verbatim>\<open>SIGILL\<close>,
  \<^verbatim>\<open>SIGSEGV\<close>, \<^verbatim>\<open>SIGBUS\<close>, \<^verbatim>\<open>SIGABRT\<close>, \<^verbatim>\<open>SIGTRAP\<close> and \<^verbatim>\<open>SIGSYS\<close>, that mask is
  the mask of the process afterwards, and the child mask it hands back is the mask the
  process had before the call. When one of the operations fails, \<^verbatim>\<open>prepare_sigmask\<close>
  returns \<open>1\<close>, \<^verbatim>\<open>main\<close> returns \<open>1\<close>, and no \<^verbatim>\<open>fork\<close> has been made.
\<close>

theorem prepare_sigmask_contract:
  "(mask_setup_ok w \<longrightarrow>
      prepare_sigmask w =
        (Inr (full_sigset w - {SIGFPE, SIGILL, SIGSEGV, SIGBUS, SIGABRT, SIGTRAP, SIGSYS},
              sigmask w),
         w\<lparr>sigmask :=
              full_sigset w - {SIGFPE, SIGILL, SIGSEGV, SIGBUS, SIGABRT, SIGTRAP, SIGSYS},
            trace := trace w @ mask_setup_events w\<rparr>))
   \<and> (\<not> mask_setup_ok w \<longrightarrow>
      (\<exists>evs. prepare_sigmask w = (Inl 1, w\<lparr>trace := trace w @ evs\<rparr>) \<and>
         main argv w = Some (Exit 1, w\<lparr>trace := trace w @ evs\<rparr>) \<and>
         Sys_fork \<notin> set evs))"
proof (intro conjI impI)
  assume "mask_setup_ok w"
  from prepare_sigmask_ok [OF this]
  show "prepare_sigmask w =
        (Inr (full_sigset w - {SIGFPE, SIGILL, SIGSEGV, SIGBUS, SIGABRT, SIGTRAP, SIGSYS},
              sigmask w),
         w\<lparr>sigmask :=
              full_sigset w - {SIGFPE, SIGILL, SIGSEGV, SIGBUS, SIGABRT, SIGTRAP, SIGSYS},
            trace := trace w @ mask_setup_events w\<rparr>)"
    by (simp add: parent_mask_def)
next
  assume "\<not> mask_setup_ok w"
  from prepare_sigmask_failed [OF this] obtain evs where
    res: "prepare_sigmask w = (Inl 1, w\<lparr>trace := trace w @ evs\<rparr>)"
    and evs: "only_mask_setup evs"
    by blast
  from res main_mask_failed [OF res, of argv] only_mask_setup_excludes(1) [OF evs]
  show "\<exists>evs. prepare_sigmask w = (Inl 1, w\<lparr>trace := trace w @ evs\<rparr>) \<and>
         main argv w = Some (Exit 1, w\<lparr>trace := trace w @ evs\<rparr>) \<and>
         Sys_fork \<notin> set evs"
    by blast
qed

theorem prepare_sigmask_contract_witness:
  "prepare_sigmask (idle_world\<lparr>full_sigset := {1..8}, sigmask := {2, 15}\<rparr>) =
     (Inr ({1, 2, 3}, {2, 15}),
      idle_world\<lparr>full_sigset := {1..8}, sigmask := {1, 2, 3},
        trace := [Sys_sigfillset, Sys_sigdelset 8, Sys_sigdelset 4, Sys_sigdelset 11,
          Sys_sigdelset 7, Sys_sigdelset 6, Sys_sigdelset 5, Sys_sigdelset 31,
          Sys_sigprocmask {1, 2, 3}]\<rparr>)
   \<and> (\<exists>evs. main [''tini'', ''sleep''] (idle_world\<lparr>sigprocmask_ret := - 1\<rparr>) =
         Some (Exit 1, idle_world\<lparr>sigprocmask_ret := - 1, trace := evs\<rparr>) \<and>
       Sys_fork \<notin> set evs)"
proof -
  let ?a = "idle_world\<lparr>full_sigset := {1..8}, sigmask := {2, 15}\<rparr>"
  let ?b = "idle_world\<lparr>sigprocmask_ret := - 1\<rparr>"
  have a: "mask_setup_ok ?a"
    by (simp add: mask_setup_ok_def idle_world_def ignore_signals_def)
  have b: "\<not> mask_setup_ok ?b"
    by (simp add: mask_setup_ok_def)
  have set: "{1..8} - {8, 4, 11, 7, 6, 5, 31} = {1, 2, 3 :: int}"
    by auto
  have tr: "trace ?a = []" "trace ?b = []" by (simp_all add: idle_world_def)
  have first: "prepare_sigmask ?a =
     (Inr ({1, 2, 3}, {2, 15}),
      idle_world\<lparr>full_sigset := {1..8}, sigmask := {1, 2, 3},
        trace := [Sys_sigfillset, Sys_sigdelset 8, Sys_sigdelset 4, Sys_sigdelset 11,
          Sys_sigdelset 7, Sys_sigdelset 6, Sys_sigdelset 5, Sys_sigdelset 31,
          Sys_sigprocmask {1, 2, 3}]\<rparr>)"
    using prepare_sigmask_contract [of ?a "[]"] a
    by (simp add: tr mask_setup_events_def parent_mask_def ignore_signals_def
        signal_defs set)
  have second: "\<exists>evs. main [''tini'', ''sleep''] ?b =
         Some (Exit 1, idle_world\<lparr>sigprocmask_ret := - 1, trace := evs\<rparr>) \<and>
       Sys_fork \<notin> set evs"
    using prepare_sigmask_contract [of ?b "[''tini'', ''sleep'']"] b
    by (auto simp: tr)
  from first second show ?thesis by blast
qed

subsection \<open>Parsing the arguments\<close>

lemma getopt_loop_verbose:
  assumes "getopt_tape w = replicate n char_v @ rest"
  shows "getopt_loop pfe w =
    getopt_loop pfe (w\<lparr>verbosity := verbosity w + int n, getopt_tape := rest,
      trace := trace w @ replicate n Sys_getopt\<rparr>)"
  using assms
proof (induction n arbitrary: w)
  case 0
  then have "w\<lparr>verbosity := verbosity w + int 0, getopt_tape := rest,
      trace := trace w @ replicate 0 Sys_getopt\<rparr> = w"
    by simp
  then show ?case by simp
next
  case (Suc n)
  let ?w1 = "w\<lparr>verbosity := verbosity w + 1, getopt_tape := replicate n char_v @ rest,
      trace := trace w @ [Sys_getopt]\<rparr>"
  have got: "getopt w = (char_v, emit Sys_getopt (w\<lparr>getopt_tape := replicate n char_v @ rest\<rparr>))"
    using Suc.prems by (simp add: getopt_def)
  have w1: "(emit Sys_getopt (w\<lparr>getopt_tape := replicate n char_v @ rest\<rparr>))
      \<lparr>verbosity := verbosity (emit Sys_getopt (w\<lparr>getopt_tape := replicate n char_v @ rest\<rparr>)) + 1\<rparr>
      = ?w1"
    by (cases w) (simp add: emit_def)
  have step: "getopt_loop pfe w = getopt_loop pfe ?w1"
    by (subst getopt_loop.simps) (simp add: got w1, simp add: char_defs)
  have "getopt_tape ?w1 = replicate n char_v @ rest" by simp
  from Suc.IH [OF this] have "getopt_loop pfe ?w1 =
    getopt_loop pfe (?w1\<lparr>verbosity := verbosity ?w1 + int n, getopt_tape := rest,
      trace := trace ?w1 @ replicate n Sys_getopt\<rparr>)" .
  also have "?w1\<lparr>verbosity := verbosity ?w1 + int n, getopt_tape := rest,
      trace := trace ?w1 @ replicate n Sys_getopt\<rparr> =
    w\<lparr>verbosity := verbosity w + int (Suc n), getopt_tape := rest,
      trace := trace w @ replicate (Suc n) Sys_getopt\<rparr>"
    by (cases w) simp
  finally show ?case using step by simp
qed

lemma getopt_loop_help:
  assumes "getopt_tape w = char_h # rest"
  shows "getopt_loop pfe w =
    (Some 1, 0, w\<lparr>getopt_tape := rest, trace := trace w @ [Sys_getopt, Usage Stdout]\<rparr>)"
  using assms
  by (subst getopt_loop.simps) (simp add: getopt_def emit_def print_usage_def char_defs)

lemma getopt_loop_unknown:
  assumes "getopt_tape w = char_qm # rest"
  shows "getopt_loop pfe w =
    (Some 1, pfe, w\<lparr>getopt_tape := rest, trace := trace w @ [Sys_getopt, Usage Stderr]\<rparr>)"
  using assms
  by (subst getopt_loop.simps) (simp add: getopt_def emit_def print_usage_def char_defs)

lemma getopt_loop_end:
  assumes "getopt_tape w = []"
  shows "getopt_loop pfe w = (None, pfe, w\<lparr>trace := trace w @ [Sys_getopt]\<rparr>)"
  using assms
  by (subst getopt_loop.simps) (simp add: getopt_def emit_def)

lemma replicate_snoc_Suc: "replicate n x @ [x] = replicate (Suc n) x"
  by (simp add: replicate_append_same)

lemma parse_args_help:
  assumes "getopt_tape w = replicate n char_v @ char_h # rest"
  shows "parse_args argv pfe w =
    (Some (Inl 1), 0, w\<lparr>verbosity := verbosity w + int n, getopt_tape := rest,
      trace := trace w @ replicate (Suc n) Sys_getopt @ [Usage Stdout]\<rparr>)"
  unfolding parse_args_def getopt_loop_verbose [OF assms]
  by (subst getopt_loop_help [where rest = rest])
     (simp_all add: replicate_snoc_Suc [symmetric] del: replicate_Suc)

lemma parse_args_unknown:
  assumes "getopt_tape w = replicate n char_v @ char_qm # rest"
  shows "parse_args argv pfe w =
    (Some (Inl 1), pfe, w\<lparr>verbosity := verbosity w + int n, getopt_tape := rest,
      trace := trace w @ replicate (Suc n) Sys_getopt @ [Usage Stderr]\<rparr>)"
  unfolding parse_args_def getopt_loop_verbose [OF assms]
  by (subst getopt_loop_unknown [where rest = rest])
     (simp_all add: replicate_snoc_Suc [symmetric] del: replicate_Suc)

lemma parse_args_missing:
  assumes "getopt_tape w = replicate n char_v" and "calloc_ok w"
    and "argv \<noteq> []" and "optind w = length argv"
  shows "parse_args argv pfe w =
    (Some (Inl 1), pfe, w\<lparr>verbosity := verbosity w + int n, getopt_tape := [],
      trace := trace w @ replicate (Suc n) Sys_getopt @ [Sys_calloc, Usage Stderr]\<rparr>)"
proof -
  from assms(1) have "getopt_tape w = replicate n char_v @ []" by simp
  note loop = getopt_loop_verbose [OF this]
  show ?thesis
    unfolding parse_args_def loop
    by (subst getopt_loop_end)
       (use assms(2-4) in \<open>simp_all add: emit_def print_usage_def Let_def
          replicate_snoc_Suc [symmetric] del: replicate_Suc\<close>)
qed

lemma main_mask_ok:
  assumes "mask_setup_ok w"
  shows "main argv w =
    (case parse_args argv 1
        (w\<lparr>sigmask := parent_mask w, trace := trace w @ mask_setup_events w\<rparr>) of
       (None, pe, w2) \<Rightarrow> Some (Undefined, w2)
     | (Some (Inl r), pe, w2) \<Rightarrow> Some (Exit pe, w2)
     | (Some (Inr child_args), pe, w2) \<Rightarrow>
         (case spawn (sigmask w) child_args w2 of
            (None, w3) \<Rightarrow> Some (Exec child_args, w3)
          | (Some (Inl r), w3) \<Rightarrow> Some (Exit 1, w3)
          | (Some (Inr child_pid), w3) \<Rightarrow> main_loop (parent_mask w) child_pid (- 1) w3))"
  by (simp add: main_def prepare_sigmask_ok [OF assms])

lemma getopt_loop_trace:
  "\<exists>evs. trace (snd (snd (getopt_loop pfe w))) = trace w @ Sys_getopt # evs"
proof (induction cs \<equiv> "getopt_tape w" arbitrary: w)
  case Nil
  then show ?case by (simp add: getopt_loop_end)
next
  case (Cons c cs)
  let ?w1 = "emit Sys_getopt (w\<lparr>getopt_tape := cs\<rparr>)"
  have got: "getopt w = (c, ?w1)"
    using Cons.hyps(2) [symmetric] by (simp add: getopt_def)
  have t1: "trace ?w1 = trace w @ [Sys_getopt]" by (simp add: emit_def)
  show ?case
  proof (cases "c = char_v")
    case False
    then show ?thesis
      by (subst getopt_loop.simps) (simp add: got t1 print_usage_def emit_def)
  next
    case True
    let ?w2 = "?w1\<lparr>verbosity := verbosity ?w1 + 1\<rparr>"
    have "cs = getopt_tape ?w2" by (simp add: emit_def)
    from Cons.hyps(1) [OF this] obtain evs where
      "trace (snd (snd (getopt_loop pfe ?w2))) = trace ?w2 @ Sys_getopt # evs"
      by blast
    moreover have "getopt_loop pfe w = getopt_loop pfe ?w2"
      using True by (subst getopt_loop.simps) (simp add: got char_defs)
    moreover have "trace ?w2 = trace w @ [Sys_getopt]" by (simp add: emit_def)
    ultimately show ?thesis by simp
  qed
qed

lemma parse_args_trace:
  "\<exists>evs. trace (snd (snd (parse_args argv pfe w))) = trace w @ Sys_getopt # evs"
proof -
  obtain r pfe' w1 where loop: "getopt_loop pfe w = (r, pfe', w1)"
    by (cases "getopt_loop pfe w") auto
  from getopt_loop_trace [of pfe w] loop obtain evs where
    t1: "trace w1 = trace w @ Sys_getopt # evs"
    by auto
  show ?thesis
    unfolding parse_args_def loop
    by (cases r) (simp_all add: t1 Let_def emit_def PRINT_FATAL_def print_usage_def)
qed

lemma spawn_trace: "\<exists>evs. trace (snd (spawn child_sigset args w)) = trace w @ evs"
  by (simp add: spawn_def Let_def emit_def PRINT_FATAL_def PRINT_INFO_def)

lemma main_loop_trace:
  assumes "main_loop S p e w = Some (out, w')"
  shows "\<exists>evs. trace w' = trace w @ evs"
  using main_loop_phases [OF assms, of Start] by blast

lemma main_trace:
  assumes ok: "mask_setup_ok w" and run: "main argv w = Some (out, w')"
  shows "\<exists>evs. trace w' = trace w @ mask_setup_events w @ Sys_getopt # evs"
proof -
  let ?w1 = "w\<lparr>sigmask := parent_mask w, trace := trace w @ mask_setup_events w\<rparr>"
  obtain res pe w2 where parse: "parse_args argv 1 ?w1 = (res, pe, w2)"
    by (cases "parse_args argv 1 ?w1") auto
  from parse_args_trace [of argv 1 ?w1] parse obtain evs2 where
    t2: "trace w2 = trace w @ mask_setup_events w @ Sys_getopt # evs2"
    by auto
  note m = main_mask_ok [OF ok, of argv]
  show ?thesis
  proof (cases res)
    case None
    with run m parse have "w' = w2" by simp
    with t2 show ?thesis by blast
  next
    case (Some parsed)
    show ?thesis
    proof (cases parsed)
      case (Inl r)
      with run m parse Some have "w' = w2" by simp
      with t2 show ?thesis by blast
    next
      case (Inr child_args)
      obtain sp w3 where spawned: "spawn (sigmask w) child_args w2 = (sp, w3)"
        by (cases "spawn (sigmask w) child_args w2") auto
      from spawn_trace [of "sigmask w" child_args w2] spawned obtain evs3 where
        t3: "trace w3 = trace w2 @ evs3"
        by auto
      have t3': "trace w3 = trace w @ mask_setup_events w @ Sys_getopt # (evs2 @ evs3)"
        using t2 t3 by simp
      note parsed = \<open>res = Some parsed\<close> \<open>parsed = Inr child_args\<close>
      show ?thesis
      proof (cases sp)
        case None
        with run m parse parsed spawned have "w' = w3" by simp
        with t3' show ?thesis by blast
      next
        case (Some s)
        show ?thesis
        proof (cases s)
          case (Inl r)
          with run m parse parsed spawned Some have "w' = w3" by simp
          with t3' show ?thesis by blast
        next
          case (Inr child_pid)
          with run m parse parsed spawned Some
          have "main_loop (parent_mask w) child_pid (- 1) w3 = Some (out, w')" by simp
          from main_loop_trace [OF this] obtain evs4 where "trace w' = trace w3 @ evs4"
            by blast
          with t3' have "trace w' =
              trace w @ mask_setup_events w @ Sys_getopt # (evs2 @ evs3 @ evs4)"
            by simp
          then show ?thesis by blast
        qed
      qed
    qed
  qed
qed

lemma no_fork_in_mask_setup: "Sys_fork \<notin> set (mask_setup_events w)"
  by (auto simp: mask_setup_events_def)

lemma main_help:
  assumes "mask_setup_ok w" and "getopt_tape w = replicate n char_v @ char_h # rest"
  shows "main argv w =
    Some (Exit 0, w\<lparr>verbosity := verbosity w + int n, sigmask := parent_mask w,
      getopt_tape := rest,
      trace := trace w @ mask_setup_events w @ replicate (Suc n) Sys_getopt @
        [Usage Stdout]\<rparr>)"
proof -
  let ?w1 = "w\<lparr>sigmask := parent_mask w, trace := trace w @ mask_setup_events w\<rparr>"
  have "getopt_tape ?w1 = replicate n char_v @ char_h # rest" using assms(2) by simp
  from parse_args_help [OF this, of argv 1] show ?thesis
    unfolding main_mask_ok [OF assms(1)] by (cases w) simp
qed

lemma main_unknown:
  assumes "mask_setup_ok w" and "getopt_tape w = replicate n char_v @ char_qm # rest"
  shows "main argv w =
    Some (Exit 1, w\<lparr>verbosity := verbosity w + int n, sigmask := parent_mask w,
      getopt_tape := rest,
      trace := trace w @ mask_setup_events w @ replicate (Suc n) Sys_getopt @
        [Usage Stderr]\<rparr>)"
proof -
  let ?w1 = "w\<lparr>sigmask := parent_mask w, trace := trace w @ mask_setup_events w\<rparr>"
  have "getopt_tape ?w1 = replicate n char_v @ char_qm # rest" using assms(2) by simp
  from parse_args_unknown [OF this, of argv 1] show ?thesis
    unfolding main_mask_ok [OF assms(1)] by (cases w) simp
qed

lemma main_missing:
  assumes "mask_setup_ok w" and "getopt_tape w = replicate n char_v"
    and "calloc_ok w" and "argv \<noteq> []" and "optind w = length argv"
  shows "main argv w =
    Some (Exit 1, w\<lparr>verbosity := verbosity w + int n, sigmask := parent_mask w,
      getopt_tape := [],
      trace := trace w @ mask_setup_events w @ replicate (Suc n) Sys_getopt @
        [Sys_calloc, Usage Stderr]\<rparr>)"
proof -
  let ?w1 = "w\<lparr>sigmask := parent_mask w, trace := trace w @ mask_setup_events w\<rparr>"
  have "getopt_tape ?w1 = replicate n char_v" "calloc_ok ?w1" "argv \<noteq> []"
    "optind ?w1 = length argv"
    using assms(2-5) by simp_all
  from parse_args_missing [OF this, of 1] show ?thesis
    unfolding main_mask_ok [OF assms(1)] by (cases w) simp
qed

text \<open>
  Claim C8, as amended. The claim holds from the point where \<^verbatim>\<open>main\<close> parses the
  arguments, that is once the signal mask is set up. After any number \<open>n\<close> of \<^verbatim>\<open>-v\<close>:
  if \<^verbatim>\<open>getopt\<close> reports the help flag, usage is printed to standard output and
  \<^verbatim>\<open>main\<close> returns \<open>0\<close>; if it reports an unknown option (\<^verbatim>\<open>'?'\<close>), usage is printed
  to standard error and \<^verbatim>\<open>main\<close> returns \<open>1\<close>; if the options end with no argument left
  (\<^verbatim>\<open>optind = argc\<close>), in a vector \<^verbatim>\<open>argv\<close> that is not empty, and the vector for the
  child is allocated, usage is printed to standard error and \<^verbatim>\<open>main\<close> returns \<open>1\<close>. In
  all three cases the events of the run are the mask setup, the calls of \<^verbatim>\<open>getopt\<close>
  (and \<^verbatim>\<open>calloc\<close>) and the usage text: no \<^verbatim>\<open>fork\<close> is made.
\<close>

theorem argument_parsing:
  assumes "mask_setup_ok w"
  shows "(getopt_tape w = replicate n char_v @ char_h # rest \<longrightarrow>
           (\<exists>w'. main argv w = Some (Exit 0, w') \<and>
              new_events w w' =
                mask_setup_events w @ replicate (Suc n) Sys_getopt @ [Usage Stdout] \<and>
              Sys_fork \<notin> set (new_events w w')))
       \<and> (getopt_tape w = replicate n char_v @ char_qm # rest \<longrightarrow>
           (\<exists>w'. main argv w = Some (Exit 1, w') \<and>
              new_events w w' =
                mask_setup_events w @ replicate (Suc n) Sys_getopt @ [Usage Stderr] \<and>
              Sys_fork \<notin> set (new_events w w')))
       \<and> (getopt_tape w = replicate n char_v \<and> calloc_ok w \<and> argv \<noteq> [] \<and>
          optind w = length argv \<longrightarrow>
           (\<exists>w'. main argv w = Some (Exit 1, w') \<and>
              new_events w w' =
                mask_setup_events w @ replicate (Suc n) Sys_getopt @
                  [Sys_calloc, Usage Stderr] \<and>
              Sys_fork \<notin> set (new_events w w')))"
proof (intro conjI impI)
  assume "getopt_tape w = replicate n char_v @ char_h # rest"
  from main_help [OF assms this, of argv]
  show "\<exists>w'. main argv w = Some (Exit 0, w') \<and>
      new_events w w' =
        mask_setup_events w @ replicate (Suc n) Sys_getopt @ [Usage Stdout] \<and>
      Sys_fork \<notin> set (new_events w w')"
    by (simp add: new_events_def no_fork_in_mask_setup del: replicate_Suc)
next
  assume "getopt_tape w = replicate n char_v @ char_qm # rest"
  from main_unknown [OF assms this, of argv]
  show "\<exists>w'. main argv w = Some (Exit 1, w') \<and>
      new_events w w' =
        mask_setup_events w @ replicate (Suc n) Sys_getopt @ [Usage Stderr] \<and>
      Sys_fork \<notin> set (new_events w w')"
    by (simp add: new_events_def no_fork_in_mask_setup del: replicate_Suc)
next
  assume "getopt_tape w = replicate n char_v \<and> calloc_ok w \<and> argv \<noteq> [] \<and>
          optind w = length argv"
  then have "getopt_tape w = replicate n char_v" "calloc_ok w" "argv \<noteq> []"
    "optind w = length argv"
    by simp_all
  from main_missing [OF assms this]
  show "\<exists>w'. main argv w = Some (Exit 1, w') \<and>
      new_events w w' =
        mask_setup_events w @ replicate (Suc n) Sys_getopt @ [Sys_calloc, Usage Stderr] \<and>
      Sys_fork \<notin> set (new_events w w')"
    by (simp add: new_events_def no_fork_in_mask_setup del: replicate_Suc)
qed


lemma mask_setup_ok_idle [simp]:
  "mask_setup_ok (idle_world\<lparr>getopt_tape := cs\<rparr>)"
  "mask_setup_ok idle_world"
  by (simp_all add: mask_setup_ok_def idle_world_def ignore_signals_def)

theorem argument_parsing_witness:
  "(\<exists>w'. main [''tini'', ''-vv'', ''-h''] (idle_world\<lparr>getopt_tape := [char_v, char_v, char_h]\<rparr>)
        = Some (Exit 0, w') \<and>
      new_events (idle_world\<lparr>getopt_tape := [char_v, char_v, char_h]\<rparr>) w' =
        mask_setup_events idle_world @ [Sys_getopt, Sys_getopt, Sys_getopt, Usage Stdout])
   \<and> (\<exists>w'. main [''tini'', ''-x'', ''sleep''] (idle_world\<lparr>getopt_tape := [char_qm]\<rparr>)
        = Some (Exit 1, w') \<and>
      new_events (idle_world\<lparr>getopt_tape := [char_qm]\<rparr>) w' =
        mask_setup_events idle_world @ [Sys_getopt, Usage Stderr])
   \<and> (\<exists>w'. main [''tini''] idle_world = Some (Exit 1, w') \<and>
      new_events idle_world w' =
        mask_setup_events idle_world @ [Sys_getopt, Sys_calloc, Usage Stderr])"
proof -
  let ?h = "idle_world\<lparr>getopt_tape := [char_v, char_v, char_h]\<rparr>"
  let ?q = "idle_world\<lparr>getopt_tape := [char_qm]\<rparr>"
  have th: "getopt_tape ?h = replicate 2 char_v @ char_h # []"
    by (simp add: numeral_2_eq_2)
  have tq: "getopt_tape ?q = replicate 0 char_v @ char_qm # []"
    by simp
  have tm: "getopt_tape idle_world = replicate 0 char_v" "calloc_ok idle_world"
    "optind idle_world = length [''tini'']"
    by (simp_all add: idle_world_def)
  have ev: "mask_setup_events ?h = mask_setup_events idle_world"
    "mask_setup_events ?q = mask_setup_events idle_world"
    by (simp_all add: mask_setup_events_def parent_mask_def)
  have "\<exists>w'. main [''tini'', ''-vv'', ''-h''] ?h = Some (Exit 0, w') \<and>
      new_events ?h w' =
        mask_setup_events idle_world @ [Sys_getopt, Sys_getopt, Sys_getopt, Usage Stdout]"
    using argument_parsing [of ?h 2 "[]" "[''tini'', ''-vv'', ''-h'']"] th
    by (auto simp: ev numeral_2_eq_2)
  moreover
  have "\<exists>w'. main [''tini'', ''-x'', ''sleep''] ?q = Some (Exit 1, w') \<and>
      new_events ?q w' = mask_setup_events idle_world @ [Sys_getopt, Usage Stderr]"
    using argument_parsing [of ?q 0 "[]" "[''tini'', ''-x'', ''sleep'']"] tq
    by (auto simp: ev)
  moreover
  have "\<exists>w'. main [''tini''] idle_world = Some (Exit 1, w') \<and>
      new_events idle_world w' =
        mask_setup_events idle_world @ [Sys_getopt, Sys_calloc, Usage Stderr]"
    using argument_parsing [of idle_world 0 "[]" "[''tini'']"] tm
    by auto
  ultimately show ?thesis by blast
qed

text \<open>
  The claim as stated fails. With the help flag and a failing \<^verbatim>\<open>sigfillset\<close>, \<^verbatim>\<open>main\<close>
  returns \<open>1\<close> and prints no usage: the mask is set up before the arguments are parsed.
  With no program given and a failing \<^verbatim>\<open>calloc\<close>, \<^verbatim>\<open>main\<close> returns \<open>1\<close> after the fatal
  line, and prints no usage. With an empty \<^verbatim>\<open>argv\<close> the vector for the child is empty
  after option parsing, and \<^verbatim>\<open>parse_args\<close> leaves defined behaviour (a store past a
  block of no element, \<^verbatim>\<open>basename\<close> of the null pointer) instead of printing usage and
  returning.
\<close>

theorem argument_parsing_counterexample:
  "main [''tini'', ''-h''] (idle_world\<lparr>sigfillset_ret := - 1, getopt_tape := [char_h]\<rparr>) =
     Some (Exit 1,
       idle_world\<lparr>sigfillset_ret := - 1, getopt_tape := [char_h],
         trace := [Sys_sigfillset, Print FATAL ''sigfillset failed: %s'']\<rparr>)
   \<and> main [''tini''] (idle_world\<lparr>calloc_ok := False\<rparr>) =
     Some (Exit 1,
       idle_world\<lparr>calloc_ok := False, sigmask := parent_mask idle_world,
         trace := mask_setup_events idle_world @
           [Sys_getopt, Sys_calloc,
            Print FATAL ''Failed to allocate memory for child args: %s'']\<rparr>)
   \<and> main [] idle_world =
     Some (Undefined,
       idle_world\<lparr>sigmask := parent_mask idle_world,
         trace := mask_setup_events idle_world @ [Sys_getopt, Sys_calloc]\<rparr>)"
proof -
  have failed: "\<not> mask_setup_ok (idle_world\<lparr>sigfillset_ret := - 1, getopt_tape := [char_h]\<rparr>)"
    by (simp add: mask_setup_ok_def)
  have ok: "mask_setup_ok (idle_world\<lparr>calloc_ok := False\<rparr>)" "mask_setup_ok idle_world"
    by (simp_all add: mask_setup_ok_def idle_world_def ignore_signals_def)
  have same: "parent_mask (idle_world\<lparr>calloc_ok := False\<rparr>) = parent_mask idle_world"
    "mask_setup_events (idle_world\<lparr>calloc_ok := False\<rparr>) = mask_setup_events idle_world"
    by (simp_all add: parent_mask_def mask_setup_events_def)
  have first: "main [''tini'', ''-h'']
      (idle_world\<lparr>sigfillset_ret := - 1, getopt_tape := [char_h]\<rparr>) =
     Some (Exit 1,
       idle_world\<lparr>sigfillset_ret := - 1, getopt_tape := [char_h],
         trace := [Sys_sigfillset, Print FATAL ''sigfillset failed: %s'']\<rparr>)"
    by (simp add: main_def prepare_sigmask_def emit_def PRINT_FATAL_def idle_world_def)
  have second: "main [''tini''] (idle_world\<lparr>calloc_ok := False\<rparr>) =
     Some (Exit 1,
       idle_world\<lparr>calloc_ok := False, sigmask := parent_mask idle_world,
         trace := mask_setup_events idle_world @
           [Sys_getopt, Sys_calloc,
            Print FATAL ''Failed to allocate memory for child args: %s'']\<rparr>)"
    unfolding main_mask_ok [OF ok(1)] same
    by (simp add: parse_args_def getopt_loop.simps getopt_def emit_def PRINT_FATAL_def
        idle_world_def)
  have third: "main [] idle_world =
     Some (Undefined,
       idle_world\<lparr>sigmask := parent_mask idle_world,
         trace := mask_setup_events idle_world @ [Sys_getopt, Sys_calloc]\<rparr>)"
    unfolding main_mask_ok [OF ok(2)]
    by (simp add: parse_args_def getopt_loop.simps getopt_def emit_def idle_world_def)
  from first second third show ?thesis by blast
qed

text \<open>
  Claim C10. \<^verbatim>\<open>main\<close> sets up the signal mask before it parses the arguments. When the
  setup fails, \<^verbatim>\<open>main\<close> returns \<open>1\<close> without a call of \<^verbatim>\<open>getopt\<close> and without usage
  output, whatever the arguments are, the help flag included. When it succeeds, the
  events of every run that ends begin with the mask setup, whose last call installs the
  parent mask, and the first call of \<^verbatim>\<open>getopt\<close> comes right after; with the help flag
  the run ends there with the parent mask installed, usage on standard output and exit
  code \<open>0\<close>.
\<close>

theorem mask_setup_before_parsing:
  "(\<not> mask_setup_ok w \<longrightarrow>
      (\<exists>evs. main argv w = Some (Exit 1, w\<lparr>trace := trace w @ evs\<rparr>) \<and>
         Sys_getopt \<notin> set evs \<and> Usage Stdout \<notin> set evs \<and> Usage Stderr \<notin> set evs))
   \<and> (mask_setup_ok w \<and> main argv w = Some (out, w') \<longrightarrow>
      (\<exists>evs. new_events w w' = mask_setup_events w @ Sys_getopt # evs))
   \<and> (mask_setup_ok w \<and> getopt_tape w = char_h # rest \<longrightarrow>
      main argv w =
        Some (Exit 0, w\<lparr>sigmask := parent_mask w, getopt_tape := rest,
          trace := trace w @ mask_setup_events w @ [Sys_getopt, Usage Stdout]\<rparr>))"
proof (intro conjI impI)
  assume "\<not> mask_setup_ok w"
  from prepare_sigmask_failed [OF this] obtain evs where
    res: "prepare_sigmask w = (Inl 1, w\<lparr>trace := trace w @ evs\<rparr>)"
    and evs: "only_mask_setup evs"
    by blast
  from main_mask_failed [OF res, of argv] only_mask_setup_excludes [OF evs]
  show "\<exists>evs. main argv w = Some (Exit 1, w\<lparr>trace := trace w @ evs\<rparr>) \<and>
         Sys_getopt \<notin> set evs \<and> Usage Stdout \<notin> set evs \<and> Usage Stderr \<notin> set evs"
    by blast
next
  assume "mask_setup_ok w \<and> main argv w = Some (out, w')"
  then have "mask_setup_ok w" "main argv w = Some (out, w')" by simp_all
  from main_trace [OF this]
  show "\<exists>evs. new_events w w' = mask_setup_events w @ Sys_getopt # evs"
    by (auto simp: new_events_def)
next
  assume "mask_setup_ok w \<and> getopt_tape w = char_h # rest"
  then have ok: "mask_setup_ok w" and "getopt_tape w = replicate 0 char_v @ char_h # rest"
    by simp_all
  from main_help [OF this, of argv]
  show "main argv w =
        Some (Exit 0, w\<lparr>sigmask := parent_mask w, getopt_tape := rest,
          trace := trace w @ mask_setup_events w @ [Sys_getopt, Usage Stdout]\<rparr>)"
    by simp
qed

theorem mask_setup_before_parsing_witness:
  "(\<exists>evs. main [''tini'', ''-h''] (idle_world\<lparr>sigfillset_ret := - 1, getopt_tape := [char_h]\<rparr>)
        = Some (Exit 1,
            idle_world\<lparr>sigfillset_ret := - 1, getopt_tape := [char_h], trace := evs\<rparr>) \<and>
      Sys_getopt \<notin> set evs \<and> Usage Stdout \<notin> set evs \<and> Usage Stderr \<notin> set evs)
   \<and> (\<exists>out w' evs. main [''tini'', ''sleep'']
        (idle_world\<lparr>sigtimedwait_tape := [Sigtimedwait_ans 17 SIGCHLD 0],
           waitpid_tape := [Waitpid_ans 5 (Exited 7) 0, Waitpid_ans 0 Continued 0]\<rparr>)
        = Some (out, w') \<and>
      new_events
        (idle_world\<lparr>sigtimedwait_tape := [Sigtimedwait_ans 17 SIGCHLD 0],
           waitpid_tape := [Waitpid_ans 5 (Exited 7) 0, Waitpid_ans 0 Continued 0]\<rparr>) w'
        = mask_setup_events idle_world @ Sys_getopt # evs)
   \<and> main [''tini'', ''-h''] (idle_world\<lparr>getopt_tape := [char_h]\<rparr>) =
       Some (Exit 0, idle_world\<lparr>sigmask := parent_mask idle_world, getopt_tape := [],
         trace := mask_setup_events idle_world @ [Sys_getopt, Usage Stdout]\<rparr>)"
proof -
  let ?f = "idle_world\<lparr>sigfillset_ret := - 1, getopt_tape := [char_h]\<rparr>"
  let ?r = "idle_world\<lparr>sigtimedwait_tape := [Sigtimedwait_ans 17 SIGCHLD 0],
           waitpid_tape := [Waitpid_ans 5 (Exited 7) 0, Waitpid_ans 0 Continued 0]\<rparr>"
  let ?h = "idle_world\<lparr>getopt_tape := [char_h]\<rparr>"
  have f: "\<not> mask_setup_ok ?f" by (simp add: mask_setup_ok_def)
  have tf: "trace ?f = []" by (simp add: idle_world_def)
  have r: "mask_setup_ok ?r"
    by (simp add: mask_setup_ok_def idle_world_def ignore_signals_def)
  have er: "mask_setup_events ?r = mask_setup_events idle_world"
    by (simp add: mask_setup_events_def parent_mask_def)
  have "\<exists>out w'. main [''tini'', ''sleep''] ?r = Some (out, w')"
    by (simp add: main_def prepare_sigmask_def ignore_signals_def parse_args_def
      getopt_loop.simps getopt_def spawn_def main_loop.simps wait_and_forward_signal_def
      sigtimedwait_def kill_def reap_zombies.simps waitpid_def emit_def PRINT_defs
      idle_world_def signal_defs errno_defs Let_def)
  then obtain out w' where run: "main [''tini'', ''sleep''] ?r = Some (out, w')"
    by blast
  have h: "mask_setup_ok ?h" "getopt_tape ?h = char_h # []" by simp_all
  have eh: "mask_setup_events ?h = mask_setup_events idle_world"
    "parent_mask ?h = parent_mask idle_world" "trace ?h = []"
    by (simp_all add: mask_setup_events_def parent_mask_def idle_world_def)
  have first: "\<exists>evs. main [''tini'', ''-h''] ?f = Some (Exit 1,
            idle_world\<lparr>sigfillset_ret := - 1, getopt_tape := [char_h], trace := evs\<rparr>) \<and>
      Sys_getopt \<notin> set evs \<and> Usage Stdout \<notin> set evs \<and> Usage Stderr \<notin> set evs"
    using mask_setup_before_parsing [of ?f "[''tini'', ''-h'']"] f
    by (auto simp: tf)
  have second: "\<exists>out w' evs. main [''tini'', ''sleep''] ?r = Some (out, w') \<and>
      new_events ?r w' = mask_setup_events idle_world @ Sys_getopt # evs"
    using mask_setup_before_parsing [of ?r "[''tini'', ''sleep'']" out w'] r run
    by (auto simp: er)
  have third: "main [''tini'', ''-h''] ?h =
       Some (Exit 0, idle_world\<lparr>sigmask := parent_mask idle_world, getopt_tape := [],
         trace := mask_setup_events idle_world @ [Sys_getopt, Usage Stdout]\<rparr>)"
    using mask_setup_before_parsing [of ?h "[''tini'', ''-h'']" _ _ "[]"] h
    by (simp add: eh)
  from first second third show ?thesis by blast
qed

end
